theory Spec2Isabelle
  imports Complex_Main "HOL-Library.Word"
begin

unbundle bit_operations_syntax

section \<open>The RD-03D frame parser (src/RD03D.h, src/RD03D.cpp)\<close>

subsection \<open>Machine types and constants\<close>

type_synonym uint8_t = "8 word"
type_synonym uint16_t = "16 word"
type_synonym int16_t = "16 word"
type_synonym uint32_t = "32 word"

text \<open>
  \<open>int16_t\<close> values are 16-bit words read with \<open>sint\<close> (two's complement);
  unsigned values are read with \<open>unat\<close> or \<open>uint\<close>.
\<close>

definition RD03D_MAX_TARGETS :: nat where
  "RD03D_MAX_TARGETS = 3"

definition RD03D_FRAME_SIZE :: nat where
  "RD03D_FRAME_SIZE = 30"

definition RD03D_FRAME_HEADER_SIZE :: nat where
  "RD03D_FRAME_HEADER_SIZE = 4"

definition RD03D_DEFAULT_TIMEOUT :: uint16_t where
  "RD03D_DEFAULT_TIMEOUT = 100"

definition FRAME_HEADER :: "uint8_t list" where
  "FRAME_HEADER = [0xAA, 0xFF, 0x03, 0x00]"

subsection \<open>Single-precision arithmetic\<close>

text \<open>
  The fields \<open>distance\<close> and \<open>angle\<close> are C \<open>float\<close>s, computed with the
  platform's float arithmetic and the library functions \<open>sqrtf\<close> and \<open>atan2f\<close>.
  None of these is code of the repository, so the float type \<open>'f\<close> and its
  operations are a parameter of the model:
  \<^item> \<open>to_float n\<close>: the float of an integer value (a cast, or a literal such
    as \<open>10.0f\<close>);
  \<^item> \<open>fadd\<close>, \<open>fmul\<close>, \<open>fdiv\<close>: float addition, multiplication, division;
  \<^item> \<open>div_PI v\<close>: \<open>v / PI\<close> stored into a float (\<open>PI\<close> is Arduino's
    double constant).
\<close>

record 'f float_ops =
  to_float :: "int \<Rightarrow> 'f"
  fadd :: "'f \<Rightarrow> 'f \<Rightarrow> 'f"
  fmul :: "'f \<Rightarrow> 'f \<Rightarrow> 'f"
  fdiv :: "'f \<Rightarrow> 'f \<Rightarrow> 'f"
  sqrtf :: "'f \<Rightarrow> 'f"
  atan2f :: "'f \<Rightarrow> 'f \<Rightarrow> 'f"
  div_PI :: "'f \<Rightarrow> 'f"

subsection \<open>Data\<close>

record 'f RD03D_Target =
  x :: int16_t
  y :: int16_t
  speed :: int16_t
  distanceRaw :: uint16_t
  distance :: 'f
  angle :: 'f
  valid :: bool

text \<open>\<open>RD03D_Target::clear\<close>.\<close>

definition clear :: "'f float_ops \<Rightarrow> 'f RD03D_Target \<Rightarrow> 'f RD03D_Target" where
  "clear F t = t\<lparr>x := 0, y := 0, speed := 0, distanceRaw := 0,
                 distance := to_float F 0, angle := to_float F 0, valid := False\<rparr>"

datatype RD03D_ParserState = RD03D_SYNC_HEADER | RD03D_READ_DATA

text \<open>
  A callback is a function pointer: the model keeps its address, \<open>None\<close> for
  \<open>nullptr\<close>. The callback's code is the user's; the model records every
  invocation with the arguments passed (the three targets as they are at that
  moment, and the count) in the ghost field \<open>invoked\<close>, and takes the callback
  to leave the parser object alone.
\<close>

type_synonym callback = nat

text \<open>
  The object. Fixed-size arrays are functions from the index; every access
  with a computed index checks the index against the size of the array, and an
  access outside it is the fault \<open>OutOfBounds\<close> (undefined behaviour in C++).
  \<open>serial\<close> says whether \<open>_serial\<close> points to a port.
\<close>

record 'f RD03D =
  serial :: bool
  targets :: "nat \<Rightarrow> 'f RD03D_Target"
  frameCallback :: "callback option"
  frameBuf :: "nat \<Rightarrow> uint8_t"
  frameIdx :: uint8_t
  syncIdx :: uint8_t
  parserState :: RD03D_ParserState
  lastByteTime :: uint32_t
  lastFrameTime :: uint32_t
  timeoutMs :: uint16_t
  frameCount :: uint32_t
  errorCount :: uint32_t
  invoked :: "(callback \<times> 'f RD03D_Target list \<times> uint8_t) list"

datatype fault = OutOfBounds

subsection \<open>Operations\<close>

text \<open>
  The constructor. The frame buffer and the targets are not initialised by
  C++; \<open>buf0\<close> and \<open>tgt0\<close> are what the memory holds. The loop clears the
  three targets.
\<close>

definition RD03D_new ::
  "'f float_ops \<Rightarrow> (nat \<Rightarrow> uint8_t) \<Rightarrow> (nat \<Rightarrow> 'f RD03D_Target) \<Rightarrow> 'f RD03D" where
  "RD03D_new F buf0 tgt0 =
     \<lparr>serial = False,
      targets = fold (\<lambda>i ts. ts(i := clear F (ts i))) [0..<RD03D_MAX_TARGETS] tgt0,
      frameCallback = None,
      frameBuf = buf0,
      frameIdx = 0,
      syncIdx = 0,
      parserState = RD03D_SYNC_HEADER,
      lastByteTime = 0,
      lastFrameTime = 0,
      timeoutMs = RD03D_DEFAULT_TIMEOUT,
      frameCount = 0,
      errorCount = 0,
      invoked = []\<rparr>"

definition resetParser :: "'f RD03D \<Rightarrow> 'f RD03D" where
  "resetParser s = s\<lparr>parserState := RD03D_SYNC_HEADER, syncIdx := 0, frameIdx := 0\<rparr>"

text \<open>
  \<open>begin\<close>: the port is configured, stale bytes are read and dropped and the
  multi-target command is written; all of this touches the port only. \<open>t1\<close>
  and \<open>t2\<close> are the two readings of \<open>millis()\<close>.
\<close>

definition begin_serial :: "uint32_t \<Rightarrow> uint32_t \<Rightarrow> 'f RD03D \<Rightarrow> 'f RD03D" where
  "begin_serial t1 t2 s =
     (resetParser (s\<lparr>serial := True\<rparr>))\<lparr>lastByteTime := t1, lastFrameTime := t2\<rparr>"

definition onFrame :: "callback option \<Rightarrow> 'f RD03D \<Rightarrow> 'f RD03D" where
  "onFrame cb s = s\<lparr>frameCallback := cb\<rparr>"

definition setTimeout :: "uint16_t \<Rightarrow> 'f RD03D \<Rightarrow> 'f RD03D" where
  "setTimeout t s = s\<lparr>timeoutMs := t\<rparr>"

definition getTargetCount :: "'f RD03D \<Rightarrow> uint8_t" where
  "getTargetCount s =
     fold (\<lambda>i count. if valid (targets s i) then count + 1 else count)
       [0..<RD03D_MAX_TARGETS] 0"

text \<open>Two bytes, little endian: \<open>lo | (hi << 8)\<close> stored into a \<open>uint16_t\<close>.\<close>

definition le16 :: "uint8_t \<Rightarrow> uint8_t \<Rightarrow> uint16_t" where
  "le16 lo hi = ucast lo OR push_bit 8 (ucast hi)"

text \<open>
  \<open>parseTarget\<close>. \<open>data\<close> is the pointer into the frame buffer, as the
  function from the offset to the byte. The negation \<open>-x_val\<close> is computed in
  \<open>int\<close> and stored into an \<open>int16_t\<close>, which is the negation of the 16-bit
  word; \<open>raw_y - 0x8000\<close> cast to \<open>int16_t\<close> is the subtraction of 16-bit words.
\<close>

definition parseTarget ::
  "'f float_ops \<Rightarrow> uint8_t \<Rightarrow> (nat \<Rightarrow> uint8_t) \<Rightarrow> 'f RD03D \<Rightarrow> 'f RD03D" where
  "parseTarget F index data s =
     (if unat index \<ge> RD03D_MAX_TARGETS then s
      else
        let t = targets s (unat index);
            raw_x = le16 (data 0) (data 1);
            raw_y = le16 (data 2) (data 3);
            raw_speed = le16 (data 4) (data 5);
            raw_dist = le16 (data 6) (data 7);
            t = t\<lparr>valid := (raw_x \<noteq> 0 \<or> raw_y \<noteq> 0)\<rparr>
        in
          if \<not> valid t then s\<lparr>targets := (targets s)(unat index := clear F t)\<rparr>
          else
            let x_val = raw_x AND 0x7FFF;
                x_val = (if raw_x AND 0x8000 = 0 then - x_val else x_val);
                t = t\<lparr>x := x_val\<rparr>;
                t = t\<lparr>y := raw_y - 0x8000\<rparr>;
                spd_val = raw_speed AND 0x7FFF;
                spd_val = (if raw_speed AND 0x8000 = 0 then - spd_val else spd_val);
                t = t\<lparr>speed := spd_val\<rparr>;
                t = t\<lparr>distanceRaw := raw_dist\<rparr>;
                x_mm = to_float F (sint (x t));
                y_mm = to_float F (sint (y t));
                t = t\<lparr>distance :=
                       fdiv F (sqrtf F (fadd F (fmul F x_mm x_mm) (fmul F y_mm y_mm)))
                         (to_float F 10)\<rparr>;
                t = t\<lparr>angle :=
                       div_PI F (fmul F (atan2f F x_mm y_mm) (to_float F 180))\<rparr>
            in s\<lparr>targets := (targets s)(unat index := t)\<rparr>)"

text \<open>
  \<open>processFrame\<close>; \<open>now\<close> is the reading of \<open>millis()\<close>. The callback gets
  the pointer to the three targets and the count.
\<close>

definition processFrame :: "'f float_ops \<Rightarrow> uint32_t \<Rightarrow> 'f RD03D \<Rightarrow> 'f RD03D" where
  "processFrame F now s =
     (let s = s\<lparr>frameCount := frameCount s + 1\<rparr>;
          s = s\<lparr>lastFrameTime := now\<rparr>;
          s = parseTarget F 0 (\<lambda>k. frameBuf s (4 + k)) s;
          s = parseTarget F 1 (\<lambda>k. frameBuf s (12 + k)) s;
          s = parseTarget F 2 (\<lambda>k. frameBuf s (20 + k)) s
      in case frameCallback s of
           None \<Rightarrow> s
         | Some cb \<Rightarrow>
             s\<lparr>invoked := invoked s @
                  [(cb, map (targets s) [0..<RD03D_MAX_TARGETS], getTargetCount s)]\<rparr>)"

text \<open>
  While one byte is processed \<open>millis()\<close> is read at the entry of
  \<open>processByte\<close> and, when the byte completes a frame with a good tail, once
  more in \<open>processFrame\<close>. A \<open>clock\<close> is this pair of readings.
\<close>

type_synonym clock = "uint32_t \<times> uint32_t"

text \<open>
  \<open>processByte\<close>; \<open>fst now\<close> is the reading of \<open>millis()\<close> at entry and
  \<open>snd now\<close> the one taken in \<open>processFrame\<close>. The enum has two values, so the
  \<open>default\<close> branch of the switch is not reached.
\<close>

definition processByte ::
  "'f float_ops \<Rightarrow> clock \<Rightarrow> uint8_t \<Rightarrow> 'f RD03D \<Rightarrow> fault + 'f RD03D" where
  "processByte F now b s0 =
     (let s = s0\<lparr>lastByteTime := fst now\<rparr> in
      case parserState s of
        RD03D_SYNC_HEADER \<Rightarrow>
          if \<not> unat (syncIdx s) < length FRAME_HEADER then Inl OutOfBounds
          else if b = FRAME_HEADER ! unat (syncIdx s) then
            if \<not> unat (syncIdx s) < RD03D_FRAME_SIZE then Inl OutOfBounds
            else
              let s = s\<lparr>frameBuf := (frameBuf s)(unat (syncIdx s) := b)\<rparr>;
                  s = s\<lparr>syncIdx := syncIdx s + 1\<rparr>
              in if unat (syncIdx s) \<ge> RD03D_FRAME_HEADER_SIZE
                 then Inr (s\<lparr>parserState := RD03D_READ_DATA,
                             frameIdx := of_nat RD03D_FRAME_HEADER_SIZE\<rparr>)
                 else Inr s
          else if b = FRAME_HEADER ! 0 then
            Inr (s\<lparr>syncIdx := 1, frameBuf := (frameBuf s)(0 := b)\<rparr>)
          else Inr (s\<lparr>syncIdx := 0\<rparr>)
      | RD03D_READ_DATA \<Rightarrow>
          if \<not> unat (frameIdx s) < RD03D_FRAME_SIZE then Inl OutOfBounds
          else
            let s = s\<lparr>frameBuf := (frameBuf s)(unat (frameIdx s) := b),
                      frameIdx := frameIdx s + 1\<rparr>
            in if unat (frameIdx s) \<ge> RD03D_FRAME_SIZE then
                 if frameBuf s 28 = 0x55 \<and> frameBuf s 29 = 0xCC
                 then Inr (resetParser (processFrame F (snd now) s))
                 else Inr (resetParser (s\<lparr>errorCount := errorCount s + 1\<rparr>))
               else Inr s)"

text \<open>
  The loop of \<open>update\<close>: the bytes the port delivers during the call, each
  with the readings of \<open>millis()\<close> while it is processed. A fault ends the run.
\<close>

primrec processBytes ::
  "'f float_ops \<Rightarrow> (clock \<times> uint8_t) list \<Rightarrow> 'f RD03D \<Rightarrow> fault + 'f RD03D" where
  "processBytes F [] s = Inr s"
| "processBytes F (tb # rest) s =
     (case processByte F (fst tb) (snd tb) s of
        Inl e \<Rightarrow> Inl e
      | Inr s' \<Rightarrow> processBytes F rest s')"

text \<open>
  \<open>update\<close>; \<open>now\<close> is the reading of \<open>millis()\<close> at entry and \<open>avail\<close> the
  bytes read during the call. \<open>now - _lastByteTime > _timeoutMs\<close> is a
  comparison of unsigned 32-bit values.
\<close>

definition update ::
  "'f float_ops \<Rightarrow> uint32_t \<Rightarrow> (clock \<times> uint8_t) list \<Rightarrow> 'f RD03D \<Rightarrow> fault + 'f RD03D" where
  "update F now avail s =
     (if \<not> serial s then Inr s
      else
        let s = (if parserState s \<noteq> RD03D_SYNC_HEADER
                    \<and> now - lastByteTime s > ucast (timeoutMs s)
                 then resetParser (s\<lparr>errorCount := errorCount s + 1\<rparr>)
                 else s)
        in processBytes F avail s)"

definition getFrameCount :: "'f RD03D \<Rightarrow> uint32_t" where
  "getFrameCount s = frameCount s"

definition getErrorCount :: "'f RD03D \<Rightarrow> uint32_t" where
  "getErrorCount s = errorCount s"

text \<open>\<open>isConnected\<close>; \<open>now\<close> is the reading of \<open>millis()\<close>.\<close>

definition isConnected :: "uint32_t \<Rightarrow> 'f RD03D \<Rightarrow> bool" where
  "isConnected now s = (now - lastFrameTime s < 1000)"

text \<open>\<open>getTarget\<close>; \<open>None\<close> is \<open>nullptr\<close>.\<close>

definition getTarget :: "uint8_t \<Rightarrow> 'f RD03D \<Rightarrow> 'f RD03D_Target option" where
  "getTarget index s =
     (if unat index \<ge> RD03D_MAX_TARGETS then None else Some (targets s (unat index)))"

subsection \<open>The invariant of the parser\<close>

text \<open>
  While the parser seeks the header, the sync index is at most 3; while it
  reads data, the frame index is between 4 and 29.
\<close>

definition parser_inv :: "'f RD03D \<Rightarrow> bool" where
  "parser_inv s =
     (case parserState s of
        RD03D_SYNC_HEADER \<Rightarrow> unat (syncIdx s) \<le> 3
      | RD03D_READ_DATA \<Rightarrow> 4 \<le> unat (frameIdx s) \<and> unat (frameIdx s) \<le> 29)"

subsection \<open>The decoding as the specification words it\<close>

text \<open>
  The definitions of this subsection follow the text of the specification
  (sections 3, 4.3 and 6), not the code; the theorems below compare the code
  with them.

  A frame is the 4-byte header, three 8-byte target blocks and the 2-byte tail
  marker. The tail marker is the pair of bytes that \<open>processByte\<close> compares
  the bytes 28 and 29 with.
\<close>

definition frame_tail :: "uint8_t list" where
  "frame_tail = [0x55, 0xCC]"

definition spec_frame :: "uint8_t list \<Rightarrow> uint8_t list \<Rightarrow> uint8_t list \<Rightarrow> uint8_t list" where
  "spec_frame b1 b2 b3 = FRAME_HEADER @ b1 @ b2 @ b3 @ frame_tail"

text \<open>The eight bytes of target slot \<open>i\<close> (0, 1, 2) of a frame buffer.\<close>

definition slot :: "(nat \<Rightarrow> uint8_t) \<Rightarrow> nat \<Rightarrow> uint8_t list" where
  "slot buf i = map (\<lambda>k. buf (4 + 8 * i + k)) [0..<8]"

text \<open>The \<open>k\<close>-th little-endian 16-bit unsigned field of a block.\<close>

definition spec_field :: "uint8_t list \<Rightarrow> nat \<Rightarrow> uint16_t" where
  "spec_field blk k = of_nat (unat (blk ! (2 * k)) + 256 * unat (blk ! (2 * k + 1)))"

text \<open>
  Sign and magnitude with a polarity flag: the magnitude is the low 15 bits;
  flag (bit 15) set means positive, flag clear means negative.
\<close>

definition spec_sign_magnitude :: "uint16_t \<Rightarrow> int" where
  "spec_sign_magnitude raw =
     (let magnitude = uint (raw AND 0x7FFF)
      in if bit raw 15 then magnitude else - magnitude)"

text \<open>Offset encoding: the raw value minus the bias \<open>0x8000\<close>.\<close>

definition spec_offset :: "uint16_t \<Rightarrow> int" where
  "spec_offset raw = uint raw - 0x8000"

text \<open>
  The derived fields, \<open>sqrt(x\<^sup>2 + y\<^sup>2) / 10\<close> and \<open>atan2(x, y) \<times> 180 / \<pi>\<close>, in the
  float arithmetic \<open>F\<close>.
\<close>

definition spec_distance :: "'f float_ops \<Rightarrow> int \<Rightarrow> int \<Rightarrow> 'f" where
  "spec_distance F x_mm y_mm =
     fdiv F (sqrtf F (fadd F (fmul F (to_float F x_mm) (to_float F x_mm))
                             (fmul F (to_float F y_mm) (to_float F y_mm))))
       (to_float F 10)"

definition spec_angle :: "'f float_ops \<Rightarrow> int \<Rightarrow> int \<Rightarrow> 'f" where
  "spec_angle F x_mm y_mm =
     div_PI F (fmul F (atan2f F (to_float F x_mm) (to_float F y_mm)) (to_float F 180))"

definition spec_cleared :: "'f float_ops \<Rightarrow> 'f RD03D_Target" where
  "spec_cleared F =
     \<lparr>x = 0, y = 0, speed = 0, distanceRaw = 0,
      distance = to_float F 0, angle = to_float F 0, valid = False\<rparr>"

definition spec_decode :: "'f float_ops \<Rightarrow> uint8_t list \<Rightarrow> 'f RD03D_Target" where
  "spec_decode F blk =
     (let rawX = spec_field blk 0;
          rawY = spec_field blk 1;
          rawSpeed = spec_field blk 2;
          rawDistanceCode = spec_field blk 3
      in if rawX \<noteq> 0 \<or> rawY \<noteq> 0 then
           \<lparr>x = word_of_int (spec_sign_magnitude rawX),
            y = word_of_int (spec_offset rawY),
            speed = word_of_int (spec_sign_magnitude rawSpeed),
            distanceRaw = rawDistanceCode,
            distance = spec_distance F (spec_sign_magnitude rawX) (spec_offset rawY),
            angle = spec_angle F (spec_sign_magnitude rawX) (spec_offset rawY),
            valid = True\<rparr>
         else spec_cleared F)"

text \<open>The count of valid entries among the targets passed to the consumer.\<close>

definition spec_count :: "'f RD03D_Target list \<Rightarrow> uint8_t" where
  "spec_count ts = of_nat (length (filter valid ts))"

subsection \<open>An interpretation of the float arithmetic\<close>

text \<open>
  To run the model on concrete inputs the float operations are interpreted in
  the real numbers, without rounding. \<open>atan2 b a\<close> is the angle of the point
  \<open>(a, b)\<close>, as C's \<open>atan2(y, x)\<close>.
\<close>

definition atan2 :: "real \<Rightarrow> real \<Rightarrow> real" where
  "atan2 b a =
     (if a > 0 then arctan (b / a)
      else if a < 0 then (if b \<ge> 0 then arctan (b / a) + pi else arctan (b / a) - pi)
      else if b > 0 then pi / 2
      else if b < 0 then - pi / 2
      else 0)"

definition exact_ops :: "real float_ops" where
  "exact_ops =
     \<lparr>to_float = real_of_int, fadd = (+), fmul = (*), fdiv = (/),
      sqrtf = sqrt, atan2f = atan2, div_PI = (\<lambda>v. v / pi)\<rparr>"

subsection \<open>A rounding-error model of the float arithmetic\<close>

text \<open>
  \<open>within_rel c e v\<close>: the value \<open>v\<close> is the exact value \<open>e\<close> up to the
  relative error \<open>c\<close>.
\<close>

definition within_rel :: "real \<Rightarrow> real \<Rightarrow> real \<Rightarrow> bool" where
  "within_rel c e v \<longleftrightarrow> \<bar>v - e\<bar> \<le> c * \<bar>e\<bar>"

text \<open>
  The normal range of single precision, with a wide margin: a number is in
  range when it is zero or its magnitude lies between \<open>2\<^sup>-\<^sup>1\<^sup>0\<^sup>0\<close> and
  \<open>2\<^sup>1\<^sup>0\<^sup>0\<close>. No operation on operands in range with an exact result in
  range overflows or underflows.
\<close>

definition ranged :: "real \<Rightarrow> real \<Rightarrow> real \<Rightarrow> bool" where
  "ranged lo hi r \<longleftrightarrow> r = 0 \<or> (lo \<le> \<bar>r\<bar> \<and> \<bar>r\<bar> \<le> hi)"

definition in_range :: "real \<Rightarrow> bool" where
  "in_range r \<longleftrightarrow> ranged (1 / 2 ^ 100) (2 ^ 100) r"

text \<open>
  What a claim about a floating-point tolerance assumes of the platform, which
  is not code of the repository: \<open>val\<close> reads a float as the real number it
  stands for; the integers up to \<open>2\<^sup>1\<^sup>5\<close> in magnitude (all values of an
  \<open>int16_t\<close>, and the literals 10 and 180) are converted exactly; an
  arithmetic operation or \<open>sqrtf\<close> on operands in range whose exact result is
  in range returns this result up to the relative error \<open>eps\<close> (for single
  precision with correct rounding \<open>eps = 2\<^sup>-\<^sup>2\<^sup>4\<close>); \<open>atan2f\<close> of two converted
  \<open>int16_t\<close> values returns the angle up to the relative error \<open>eps\<close>.
  Nothing is assumed of an operation that overflows or underflows, of
  infinities or of NaN.
\<close>

definition float_model :: "real \<Rightarrow> ('f \<Rightarrow> real) \<Rightarrow> 'f float_ops \<Rightarrow> bool" where
  "float_model eps val F \<longleftrightarrow>
     (\<forall>n. \<bar>n\<bar> \<le> 2 ^ 15 \<longrightarrow> val (to_float F n) = real_of_int n)
   \<and> (\<forall>a b. in_range (val a) \<and> in_range (val b) \<and> in_range (val a + val b) \<longrightarrow>
        within_rel eps (val a + val b) (val (fadd F a b)))
   \<and> (\<forall>a b. in_range (val a) \<and> in_range (val b) \<and> in_range (val a * val b) \<longrightarrow>
        within_rel eps (val a * val b) (val (fmul F a b)))
   \<and> (\<forall>a b. in_range (val a) \<and> in_range (val b) \<and> val b \<noteq> 0 \<and> in_range (val a / val b) \<longrightarrow>
        within_rel eps (val a / val b) (val (fdiv F a b)))
   \<and> (\<forall>a. in_range (val a) \<and> 0 \<le> val a \<longrightarrow>
        within_rel eps (sqrt (val a)) (val (sqrtf F a)))
   \<and> (\<forall>m n. \<bar>m\<bar> \<le> 2 ^ 15 \<and> \<bar>n\<bar> \<le> 2 ^ 15 \<longrightarrow>
        within_rel eps (atan2 (real_of_int m) (real_of_int n))
          (val (atan2f F (to_float F m) (to_float F n))))
   \<and> (\<forall>a. in_range (val a) \<and> in_range (val a / pi) \<longrightarrow>
        within_rel eps (val a / pi) (val (div_PI F a)))"

text \<open>
  An arithmetic that does round: every operation returns the exact result
  times \<open>1 + d\<close>. It serves as an example of the model with a real error.
\<close>

definition rounding_ops :: "real \<Rightarrow> real float_ops" where
  "rounding_ops d =
     \<lparr>to_float = real_of_int,
      fadd = (\<lambda>a b. (a + b) * (1 + d)),
      fmul = (\<lambda>a b. a * b * (1 + d)),
      fdiv = (\<lambda>a b. a / b * (1 + d)),
      sqrtf = (\<lambda>a. sqrt a * (1 + d)),
      atan2f = (\<lambda>a b. atan2 a b * (1 + d)),
      div_PI = (\<lambda>v. v / pi * (1 + d))\<rparr>"

text \<open>
  A radar object as the constructor leaves it (the memory of the arrays being
  zero), with the callback at address \<open>cb\<close> registered.
\<close>

definition fresh_radar :: "callback \<Rightarrow> real RD03D" where
  "fresh_radar cb =
     onFrame (Some cb)
       (RD03D_new exact_ops (\<lambda>_. 0)
          (\<lambda>_. \<lparr>x = 0, y = 0, speed = 0, distanceRaw = 0,
                distance = 0, angle = 0, valid = False\<rparr>))"

section \<open>Properties\<close>

subsection \<open>Word arithmetic of the decoder\<close>

lemma signed_take_bit_15_id:
  "- 32768 \<le> (k::int) \<Longrightarrow> k < 32768 \<Longrightarrow> signed_take_bit 15 k = k"
  using signed_take_bit_int_eq_self [of 15 k] by simp

lemma magnitude_le: "uint ((w::16 word) AND 0x7FFF) \<le> 0x7FFF"
  using word_and_le1 [of w "0x7FFF"] by (simp add: word_le_def)

lemma sint_magnitude: "sint ((w::16 word) AND 0x7FFF) = uint (w AND 0x7FFF)"
proof -
  have "0 \<le> uint (w AND 0x7FFF)" by simp
  with magnitude_le [of w]
  have "signed_take_bit 15 (uint (w AND 0x7FFF)) = uint (w AND 0x7FFF)"
    by (intro signed_take_bit_15_id) linarith+
  then show ?thesis by (simp add: sint_uint)
qed

lemma sint_neg_magnitude: "sint (- ((w::16 word) AND 0x7FFF)) = - uint (w AND 0x7FFF)"
proof -
  have "0 \<le> uint (w AND 0x7FFF)" by simp
  with magnitude_le [of w]
  have "signed_take_bit 15 (- uint (w AND 0x7FFF)) = - uint (w AND 0x7FFF)"
    by (intro signed_take_bit_15_id) linarith+
  then show ?thesis by (simp add: sint_word_ariths sint_magnitude)
qed

lemma flag_clear_iff: "((w::16 word) AND 0x8000 = 0) = (\<not> bit w 15)"
  using and_exp_eq_0_iff_not_bit [of w 15] by simp

lemma sint_minus_bias: "sint ((w::16 word) - 0x8000) = uint w - 0x8000"
proof -
  have "sint (w - 0x8000) = sint (word_of_int (uint w - uint (0x8000::16 word)) :: 16 word)"
    by (simp only: word_sub_wi [symmetric])
  also have "\<dots> = signed_take_bit 15 (uint w - 0x8000)"
    by (simp only: sint_sbintrunc') simp
  also have "\<dots> = uint w - 0x8000"
  proof -
    have "0 \<le> uint w" by simp
    moreover have "uint w < 65536" using uint_bounded [of w] by simp
    ultimately show ?thesis by (intro signed_take_bit_15_id) linarith+
  qed
  finally show ?thesis .
qed

lemma le16_disjoint:
  "(ucast (lo::8 word) :: 16 word) AND push_bit 8 (ucast (hi::8 word)) = 0"
  by (rule bit_word_eqI) (auto simp: bit_simps dest: bit_imp_le_length)

lemma le16_arith: "le16 lo hi = of_nat (unat lo + 256 * unat hi)"
proof -
  have "le16 lo hi = ucast lo + push_bit 8 (ucast hi)"
    unfolding le16_def by (rule disjunctive_add_eq_or [symmetric]) (rule le16_disjoint)
  also have "\<dots> = of_nat (unat lo) + 256 * of_nat (unat hi)"
    by (simp add: push_bit_eq_mult)
  finally show ?thesis by simp
qed

lemma le16_examples:
  "le16 0x10 0x80 = 0x8010" "le16 0x10 0 = 0x10" "le16 0 0 = 0"
  "le16 0 0x80 = 0x8000" "le16 5 0x80 = 0x8005" "le16 0xFB 0x7F = 0x7FFB"
  by (simp_all add: le16_def)

lemma upt_3: "[0..<3] = [0, 1, 2]"
  by (simp add: upt_rec)

lemma upt_8: "[0..<8] = [0, 1, 2, 3, 4, 5, 6, 7]"
  by (simp add: upt_rec)

lemma spec_field_map:
  "spec_field (map d [0..<8]) 0 = le16 (d 0) (d 1)"
  "spec_field (map d [0..<8]) 1 = le16 (d 2) (d 3)"
  "spec_field (map d [0..<8]) 2 = le16 (d 4) (d 5)"
  "spec_field (map d [0..<8]) 3 = le16 (d 6) (d 7)"
  by (simp_all add: spec_field_def le16_arith upt_8)

lemma spec_sign_magnitude_word:
  "word_of_int (spec_sign_magnitude raw) =
     (if raw AND 0x8000 = 0 then - (raw AND 0x7FFF) else raw AND 0x7FFF)"
  by (simp add: spec_sign_magnitude_def flag_clear_iff Let_def)

lemma sint_sign_magnitude:
  "sint (if raw AND 0x8000 = 0 then - (raw AND 0x7FFF) else raw AND 0x7FFF :: 16 word) =
     spec_sign_magnitude raw"
  by (simp add: spec_sign_magnitude_def flag_clear_iff Let_def sint_magnitude
      sint_neg_magnitude)

lemma spec_offset_word: "word_of_int (spec_offset raw) = raw - 0x8000"
  by (simp add: spec_offset_def)

lemma sint_offset: "sint (raw - 0x8000 :: 16 word) = spec_offset raw"
  by (simp add: spec_offset_def sint_minus_bias)

subsection \<open>The decoder\<close>

lemma parseTarget_frame:
  "parseTarget F index d s = s\<lparr>targets := targets (parseTarget F index d s)\<rparr>"
  by (simp add: parseTarget_def Let_def)

lemma parseTarget_other:
  "j \<noteq> unat index \<Longrightarrow> targets (parseTarget F index d s) j = targets s j"
  by (simp add: parseTarget_def Let_def)

lemma parseTarget_invalid:
  assumes "unat index < RD03D_MAX_TARGETS"
    and "le16 (d 0) (d 1) = 0" and "le16 (d 2) (d 3) = 0"
  shows "targets (parseTarget F index d s) (unat index) = spec_cleared F"
  using assms by (simp add: parseTarget_def Let_def clear_def spec_cleared_def)

lemma parseTarget_valid:
  assumes "unat index < RD03D_MAX_TARGETS"
    and "le16 (d 0) (d 1) \<noteq> 0 \<or> le16 (d 2) (d 3) \<noteq> 0"
  shows "targets (parseTarget F index d s) (unat index) =
    (let raw_x = le16 (d 0) (d 1); raw_y = le16 (d 2) (d 3);
         raw_speed = le16 (d 4) (d 5);
         x_val = (if raw_x AND 0x8000 = 0 then - (raw_x AND 0x7FFF) else raw_x AND 0x7FFF);
         y_val = raw_y - 0x8000
     in \<lparr>x = x_val, y = y_val,
         speed = (if raw_speed AND 0x8000 = 0 then - (raw_speed AND 0x7FFF)
                  else raw_speed AND 0x7FFF),
         distanceRaw = le16 (d 6) (d 7),
         distance = spec_distance F (sint x_val) (sint y_val),
         angle = spec_angle F (sint x_val) (sint y_val),
         valid = True\<rparr>)"
  using assms by (auto simp: parseTarget_def Let_def spec_distance_def spec_angle_def)

text \<open>The code's decoding of a slot is the specification's.\<close>

lemma parseTarget_spec:
  assumes "unat index < RD03D_MAX_TARGETS"
  shows "targets (parseTarget F index d s) (unat index) = spec_decode F (map d [0..<8])"
proof (cases "le16 (d 0) (d 1) = 0 \<and> le16 (d 2) (d 3) = 0")
  case True
  then show ?thesis
    unfolding spec_decode_def spec_field_map
    using assms by (simp add: parseTarget_invalid)
next
  case False
  then have v: "le16 (d 0) (d 1) \<noteq> 0 \<or> le16 (d 2) (d 3) \<noteq> 0" by simp
  show ?thesis
    unfolding parseTarget_valid [OF assms v] spec_decode_def spec_field_map Let_def
      sint_sign_magnitude sint_offset spec_sign_magnitude_word spec_offset_word
    using v by simp
qed

lemma parseTarget_eq:
  assumes "unat index < RD03D_MAX_TARGETS"
  shows "parseTarget F index d s =
           s\<lparr>targets := (targets s)(unat index := spec_decode F (map d [0..<8]))\<rparr>"
proof -
  have "targets (parseTarget F index d s) =
          (targets s)(unat index := spec_decode F (map d [0..<8]))"
    by (rule ext) (simp add: parseTarget_other parseTarget_spec [OF assms])
  then show ?thesis
    using parseTarget_frame [of F index d s] by simp
qed

text \<open>
  C3. For a valid target (raw X or raw Y nonzero), the decoded X is the low
  15 bits of raw X when bit 15 of raw X is set and the negation of these
  15 bits when bit 15 is clear, as a signed 16-bit value; the decoded speed is
  obtained from the raw speed in the same way.
\<close>

theorem parseTarget_sign_magnitude:
  assumes "unat index < RD03D_MAX_TARGETS"
    and "raw_x = le16 (data 0) (data 1)"
    and "raw_y = le16 (data 2) (data 3)"
    and "raw_speed = le16 (data 4) (data 5)"
    and "raw_x \<noteq> 0 \<or> raw_y \<noteq> 0"
    and "t = targets (parseTarget F index data s) (unat index)"
  shows "sint (x t) = (if bit raw_x 15 then uint (raw_x AND 0x7FFF)
                       else - uint (raw_x AND 0x7FFF))
       \<and> sint (speed t) = (if bit raw_speed 15 then uint (raw_speed AND 0x7FFF)
                            else - uint (raw_speed AND 0x7FFF))"
proof -
  have v: "le16 (data 0) (data 1) \<noteq> 0 \<or> le16 (data 2) (data 3) \<noteq> 0"
    using assms(2,3,5) by simp
  have "sint (x t) = spec_sign_magnitude raw_x"
    unfolding assms(6) parseTarget_valid [OF assms(1) v] Let_def
    by (simp only: RD03D_Target.simps sint_sign_magnitude assms(2))
  moreover have "sint (speed t) = spec_sign_magnitude raw_speed"
    unfolding assms(6) parseTarget_valid [OF assms(1) v] Let_def
    by (simp only: RD03D_Target.simps sint_sign_magnitude assms(4))
  ultimately show ?thesis
    by (simp add: spec_sign_magnitude_def Let_def)
qed


text \<open>
  Raw X \<open>0x8010\<close> with raw speed \<open>0x0010\<close> decodes to X = +16 and speed = -16;
  raw X \<open>0x0010\<close> decodes to X = -16.
\<close>

theorem parseTarget_sign_magnitude_witness:
  "sint (x (targets (parseTarget exact_ops 0 ((\<lambda>_. 0)(0 := 0x10, 1 := 0x80, 4 := 0x10))
              (fresh_radar 0)) 0)) = 16
   \<and> sint (speed (targets (parseTarget exact_ops 0 ((\<lambda>_. 0)(0 := 0x10, 1 := 0x80, 4 := 0x10))
              (fresh_radar 0)) 0)) = - 16
   \<and> sint (x (targets (parseTarget exact_ops 0 ((\<lambda>_. 0)(0 := 0x10))
              (fresh_radar 0)) 0)) = - 16"
  using
    parseTarget_sign_magnitude [of 0 "0x8010" "(\<lambda>_. 0)(0 := 0x10, 1 := 0x80, 4 := 0x10)"
      0 "0x0010" _ exact_ops "fresh_radar 0", OF _ _ _ _ _ refl]
    parseTarget_sign_magnitude [of 0 "0x0010" "(\<lambda>_. 0)(0 := 0x10)"
      0 0 _ exact_ops "fresh_radar 0", OF _ _ _ _ _ refl]
  by (simp add: le16_examples RD03D_MAX_TARGETS_def)

text \<open>
  C4. For a valid target, the decoded Y, as a signed 16-bit value, is raw Y
  minus \<open>0x8000\<close>.
\<close>

theorem parseTarget_y_offset:
  assumes "unat index < RD03D_MAX_TARGETS"
    and "raw_x = le16 (data 0) (data 1)"
    and "raw_y = le16 (data 2) (data 3)"
    and "raw_x \<noteq> 0 \<or> raw_y \<noteq> 0"
    and "t = targets (parseTarget F index data s) (unat index)"
  shows "sint (y t) = uint raw_y - 0x8000"
proof -
  have v: "le16 (data 0) (data 1) \<noteq> 0 \<or> le16 (data 2) (data 3) \<noteq> 0"
    using assms(2,3,4) by simp
  have "sint (y t) = sint (raw_y - 0x8000)"
    unfolding assms(5) parseTarget_valid [OF assms(1) v] Let_def
    by (simp only: RD03D_Target.simps assms(3))
  then show ?thesis
    by (simp only: sint_minus_bias)
qed

text \<open>Raw Y \<open>0x8000\<close> decodes to 0, \<open>0x8005\<close> to +5 and \<open>0x7FFB\<close> to -5.\<close>

theorem parseTarget_y_offset_witness:
  "sint (y (targets (parseTarget exact_ops 0 ((\<lambda>_. 0)(2 := 0x00, 3 := 0x80))
              (fresh_radar 0)) 0)) = 0
   \<and> sint (y (targets (parseTarget exact_ops 0 ((\<lambda>_. 0)(2 := 0x05, 3 := 0x80))
              (fresh_radar 0)) 0)) = 5
   \<and> sint (y (targets (parseTarget exact_ops 0 ((\<lambda>_. 0)(2 := 0xFB, 3 := 0x7F))
              (fresh_radar 0)) 0)) = - 5"
  using
    parseTarget_y_offset [of 0 0 "(\<lambda>_. 0)(2 := 0x00, 3 := 0x80)" "0x8000" _ exact_ops
      "fresh_radar 0", OF _ _ _ _ refl]
    parseTarget_y_offset [of 0 0 "(\<lambda>_. 0)(2 := 0x05, 3 := 0x80)" "0x8005" _ exact_ops
      "fresh_radar 0", OF _ _ _ _ refl]
    parseTarget_y_offset [of 0 0 "(\<lambda>_. 0)(2 := 0xFB, 3 := 0x7F)" "0x7FFB" _ exact_ops
      "fresh_radar 0", OF _ _ _ _ refl]
  by (simp add: le16_examples RD03D_MAX_TARGETS_def)

subsection \<open>Frames\<close>

lemma slot_simps:
  "slot buf 0 = map (\<lambda>k. buf (4 + k)) [0..<8]"
  "slot buf 1 = map (\<lambda>k. buf (12 + k)) [0..<8]"
  "slot buf (Suc 0) = map (\<lambda>k. buf (12 + k)) [0..<8]"
  "slot buf 2 = map (\<lambda>k. buf (20 + k)) [0..<8]"
  by (simp_all add: slot_def)

lemma getTargetCount_spec:
  "getTargetCount s = spec_count (map (targets s) [0..<RD03D_MAX_TARGETS])"
  by (simp add: getTargetCount_def spec_count_def RD03D_MAX_TARGETS_def upt_3)

text \<open>
  What \<open>processFrame\<close> does, in one equation: the counters, the three targets
  decoded from their slots, and the invocation of the callback.
\<close>

lemma processFrame_eq:
  "processFrame F now s =
    (let ts = (targets s)(0 := spec_decode F (slot (frameBuf s) 0),
                          1 := spec_decode F (slot (frameBuf s) 1),
                          2 := spec_decode F (slot (frameBuf s) 2));
         s' = s\<lparr>frameCount := frameCount s + 1, lastFrameTime := now, targets := ts\<rparr>
     in case frameCallback s of
          None \<Rightarrow> s'
        | Some cb \<Rightarrow>
            s'\<lparr>invoked := invoked s @ [(cb, map ts [0..<3], spec_count (map ts [0..<3]))]\<rparr>)"
  by (simp add: processFrame_def Let_def parseTarget_eq getTargetCount_spec slot_simps
      RD03D_MAX_TARGETS_def split: option.split)

lemma processFrame_targets:
  assumes "i < 3"
  shows "targets (processFrame F now s) i = spec_decode F (slot (frameBuf s) i)"
proof -
  from assms have "i = 0 \<or> i = 1 \<or> i = 2" by auto
  then show ?thesis
    by (auto simp: processFrame_eq Let_def split: option.split)
qed

subsection \<open>Steps of the state machine\<close>

lemma unat_succ8: "unat (w::8 word) < 255 \<Longrightarrow> unat (w + 1) = unat w + 1"
  by (simp add: unat_word_ariths)

lemma word8_lt_4:
  assumes "unat (w::8 word) < 4"
  shows "w = 0 \<or> w = 1 \<or> w = 2 \<or> w = 3"
  unfolding word_unat_eq_iff using assms by auto

lemma read_step:
  assumes "parserState s = RD03D_READ_DATA" and "unat (frameIdx s) < 29"
  shows "processByte F now b s =
           Inr (s\<lparr>lastByteTime := fst now,
                  frameBuf := (frameBuf s)(unat (frameIdx s) := b),
                  frameIdx := frameIdx s + 1\<rparr>)"
proof -
  have "unat (frameIdx s + 1) = unat (frameIdx s) + 1"
    using assms(2) by (intro unat_succ8) simp
  with assms show ?thesis
    by (simp add: processByte_def Let_def RD03D_FRAME_SIZE_def)
qed

lemma read_last:
  assumes "parserState s = RD03D_READ_DATA" and "unat (frameIdx s) = 29"
  shows "processByte F now b s =
           Inr (let s1 = s\<lparr>lastByteTime := fst now, frameBuf := (frameBuf s)(29 := b),
                            frameIdx := frameIdx s + 1\<rparr>
                in if frameBuf s 28 = 0x55 \<and> b = 0xCC
                   then resetParser (processFrame F (snd now) s1)
                   else resetParser (s1\<lparr>errorCount := errorCount s + 1\<rparr>))"
proof -
  have "unat (frameIdx s + 1) = 30"
    using assms(2) unat_succ8 [of "frameIdx s"] by simp
  with assms show ?thesis
    by (simp add: processByte_def Let_def RD03D_FRAME_SIZE_def)
qed

lemma sync_step:
  assumes "parserState s = RD03D_SYNC_HEADER" and "unat (syncIdx s) < 4"
  shows "processByte F now b s = Inr
     (if b = FRAME_HEADER ! unat (syncIdx s) then
        (if unat (syncIdx s) = 3
         then s\<lparr>lastByteTime := fst now,
                frameBuf := (frameBuf s)(unat (syncIdx s) := b),
                syncIdx := syncIdx s + 1,
                parserState := RD03D_READ_DATA, frameIdx := 4\<rparr>
         else s\<lparr>lastByteTime := fst now,
                frameBuf := (frameBuf s)(unat (syncIdx s) := b),
                syncIdx := syncIdx s + 1\<rparr>)
      else if b = FRAME_HEADER ! 0
        then s\<lparr>lastByteTime := fst now, frameBuf := (frameBuf s)(0 := b), syncIdx := 1\<rparr>
      else s\<lparr>lastByteTime := fst now, syncIdx := 0\<rparr>)"
proof -
  have "unat (syncIdx s + 1) = unat (syncIdx s) + 1"
    using assms(2) by (intro unat_succ8) simp
  with assms show ?thesis
    by (simp add: processByte_def Let_def RD03D_FRAME_SIZE_def RD03D_FRAME_HEADER_SIZE_def
      FRAME_HEADER_def)
qed

text \<open>
  C5. A step in the state \<open>RD03D_SYNC_HEADER\<close>, with the match index \<open>n\<close>
  (0 to 3): a byte equal to the \<open>n\<close>-th header byte is stored at position \<open>n\<close>
  and the index advances, and when the index reaches 4 the parser goes to
  \<open>RD03D_READ_DATA\<close> with the frame index 4; any other byte that equals the
  first header byte is stored at position 0 and the index becomes 1; any other
  byte sets the index to 0 and is not stored. Nothing else changes but the time
  of the last byte.
\<close>

theorem sync_seeking_step:
  assumes "parserState s = RD03D_SYNC_HEADER"
    and "n = unat (syncIdx s)" and "n < 4"
  shows "processByte F now b s = Inr
     (if b = FRAME_HEADER ! n then
        (if n + 1 = 4
         then s\<lparr>lastByteTime := fst now, frameBuf := (frameBuf s)(n := b),
                syncIdx := syncIdx s + 1,
                parserState := RD03D_READ_DATA, frameIdx := 4\<rparr>
         else s\<lparr>lastByteTime := fst now, frameBuf := (frameBuf s)(n := b),
                syncIdx := syncIdx s + 1\<rparr>)
      else if b = FRAME_HEADER ! 0
        then s\<lparr>lastByteTime := fst now, frameBuf := (frameBuf s)(0 := b), syncIdx := 1\<rparr>
      else s\<lparr>lastByteTime := fst now, syncIdx := 0\<rparr>)"
  using sync_step [of s F now b] assms by simp

text \<open>The fields of the example object.\<close>

lemma fresh_radar_parser:
  "parserState (fresh_radar cb) = RD03D_SYNC_HEADER"
  "syncIdx (fresh_radar cb) = 0"
  "frameIdx (fresh_radar cb) = 0"
  "frameCallback (fresh_radar cb) = Some cb"
  "invoked (fresh_radar cb) = []"
  "errorCount (fresh_radar cb) = 0"
  "frameCount (fresh_radar cb) = 0"
  by (simp_all add: fresh_radar_def onFrame_def RD03D_new_def)

text \<open>
  A match at index 0, a restart on the first header byte at index 2, the full
  match at index 3 and a byte dropped at index 3.
\<close>

theorem sync_seeking_step_witness:
  "processByte exact_ops (5, 5) 0xAA (fresh_radar 0) =
     Inr ((fresh_radar 0)\<lparr>lastByteTime := 5,
            frameBuf := (frameBuf (fresh_radar 0))(0 := 0xAA), syncIdx := 1\<rparr>)
   \<and> processByte exact_ops (5, 5) 0xAA ((fresh_radar 0)\<lparr>syncIdx := 2\<rparr>) =
     Inr ((fresh_radar 0)\<lparr>syncIdx := 2\<rparr>\<lparr>lastByteTime := 5,
            frameBuf := (frameBuf (fresh_radar 0))(0 := 0xAA), syncIdx := 1\<rparr>)
   \<and> processByte exact_ops (5, 5) 0x00 ((fresh_radar 0)\<lparr>syncIdx := 3\<rparr>) =
     Inr ((fresh_radar 0)\<lparr>syncIdx := 3\<rparr>\<lparr>lastByteTime := 5,
            frameBuf := (frameBuf (fresh_radar 0))(3 := 0x00), syncIdx := 4, 
            parserState := RD03D_READ_DATA, frameIdx := 4\<rparr>)
   \<and> processByte exact_ops (5, 5) 0x77 ((fresh_radar 0)\<lparr>syncIdx := 3\<rparr>) =
     Inr ((fresh_radar 0)\<lparr>syncIdx := 3\<rparr>\<lparr>lastByteTime := 5, syncIdx := 0\<rparr>)"
  using sync_seeking_step [of "fresh_radar 0" 0 exact_ops "(5, 5)" "0xAA"]
    sync_seeking_step [of "(fresh_radar 0)\<lparr>syncIdx := 2\<rparr>" 2 exact_ops "(5, 5)" "0xAA"]
    sync_seeking_step [of "(fresh_radar 0)\<lparr>syncIdx := 3\<rparr>" 3 exact_ops "(5, 5)" "0x00"]
    sync_seeking_step [of "(fresh_radar 0)\<lparr>syncIdx := 3\<rparr>" 3 exact_ops "(5, 5)" "0x77"]
  by (simp add: fresh_radar_parser FRAME_HEADER_def)

subsection \<open>The tail check\<close>

text \<open>
  C6. The step that stores the 30th byte \<open>b\<close> (frame index 29): when the bytes
  28 and 29 of the buffer are the tail marker, the frame is decoded into the
  three targets and dispatched (the frame counter grows by one and the callback,
  when there is one, is invoked once with the targets and the count), and the
  error counter stays; otherwise the error counter grows by one and the targets,
  the frame counter and the invocations stay as they are. In both cases the
  parser is back in \<open>RD03D_SYNC_HEADER\<close> with both indices 0.
\<close>

theorem frame_completion:
  assumes "parserState s = RD03D_READ_DATA" and "unat (frameIdx s) = 29"
    and "buf = (frameBuf s)(29 := b)"
  shows "\<exists>s'. processByte F now b s = Inr s'
      \<and> parserState s' = RD03D_SYNC_HEADER \<and> syncIdx s' = 0 \<and> frameIdx s' = 0
      \<and> (if [buf 28, buf 29] = frame_tail
          then frameCount s' = frameCount s + 1
             \<and> errorCount s' = errorCount s
             \<and> map (targets s') [0..<3] = map (\<lambda>i. spec_decode F (slot buf i)) [0..<3]
             \<and> invoked s' = invoked s @
                  (case frameCallback s of
                     None \<Rightarrow> []
                   | Some cb \<Rightarrow> [(cb, map (targets s') [0..<3],
                                  spec_count (map (targets s') [0..<3]))])
          else errorCount s' = errorCount s + 1
             \<and> frameCount s' = frameCount s
             \<and> targets s' = targets s
             \<and> invoked s' = invoked s)"
proof (cases "frameBuf s 28 = 0x55 \<and> b = 0xCC")
  case True
  with assms show ?thesis
    by (simp add: read_last resetParser_def processFrame_eq Let_def frame_tail_def upt_3
        split: option.split)
next
  case False
  with assms show ?thesis
    by (auto simp add: read_last resetParser_def frame_tail_def Let_def)
qed

text \<open>A frame of zeros with a good tail, and the same frame with a bad last byte.\<close>

theorem frame_completion_witness:
  "(\<exists>s'. processByte exact_ops (9, 9) 0xCC
           ((fresh_radar 7)\<lparr>parserState := RD03D_READ_DATA, frameIdx := 29,
              frameBuf := (\<lambda>_. 0)(28 := 0x55)\<rparr>) = Inr s'
      \<and> parserState s' = RD03D_SYNC_HEADER \<and> frameCount s' = 1 \<and> errorCount s' = 0
      \<and> invoked s' = [(7, map (targets s') [0..<3], spec_count (map (targets s') [0..<3]))])
   \<and> (\<exists>s'. processByte exact_ops (9, 9) 0xCD
           ((fresh_radar 7)\<lparr>parserState := RD03D_READ_DATA, frameIdx := 29,
              frameBuf := (\<lambda>_. 0)(28 := 0x55)\<rparr>) = Inr s'
      \<and> parserState s' = RD03D_SYNC_HEADER \<and> frameCount s' = 0 \<and> errorCount s' = 1
      \<and> invoked s' = [])"
  using
    frame_completion [of "(fresh_radar 7)\<lparr>parserState := RD03D_READ_DATA, frameIdx := 29,
              frameBuf := (\<lambda>_. 0)(28 := 0x55)\<rparr>" _ "0xCC" exact_ops "(9, 9)", OF _ _ refl]
    frame_completion [of "(fresh_radar 7)\<lparr>parserState := RD03D_READ_DATA, frameIdx := 29,
              frameBuf := (\<lambda>_. 0)(28 := 0x55)\<rparr>" _ "0xCD" exact_ops "(9, 9)", OF _ _ refl]
  by (simp add: fresh_radar_parser frame_tail_def) blast


subsection \<open>Validity of a slot\<close>

text \<open>
  A little-endian field, as the number \<open>lo + 256 \<times> hi\<close>, is zero as a 16-bit
  value exactly when the number is zero.
\<close>

lemma field_zero_iff:
  "(of_nat (unat (lo::8 word) + 256 * unat (hi::8 word)) = (0::16 word))
     = (unat lo + 256 * unat hi = 0)"
proof -
  have "unat lo < 256" "unat hi < 256"
    using unsigned_less [of lo, where ?'a = nat] unsigned_less [of hi, where ?'a = nat] by simp_all
  then have lt: "unat lo + 256 * unat hi < 65536" by linarith
  have small: "unat (of_nat n :: 16 word) = n" if "n < 65536" for n
    using that by (simp add: unat_of_nat)
  show ?thesis
  proof
    assume "of_nat (unat lo + 256 * unat hi) = (0::16 word)"
    then have "unat (of_nat (unat lo + 256 * unat hi) :: 16 word) = 0"
      by (simp only: unat_eq_0)
    then show "unat lo + 256 * unat hi = 0"
      by (simp only: small [OF lt])
  next
    assume "unat lo + 256 * unat hi = 0"
    then have "of_nat (unat lo + 256 * unat hi) = (of_nat 0 :: 16 word)"
      by (rule arg_cong)
    also have "\<dots> = 0" by simp
    finally show "of_nat (unat lo + 256 * unat hi) = (0::16 word)" .
  qed
qed

lemma slot_fields:
  "spec_field (slot buf i) 0 = of_nat (unat (buf (4 + 8 * i)) + 256 * unat (buf (4 + 8 * i + 1)))"
  "spec_field (slot buf i) 1 =
     of_nat (unat (buf (4 + 8 * i + 2)) + 256 * unat (buf (4 + 8 * i + 3)))"
  by (simp_all add: spec_field_def slot_def upt_8 add.assoc)

text \<open>
  C8. For each of the three slots of a frame that \<open>processFrame\<close> decodes, with
  raw X the number \<open>lo + 256 \<times> hi\<close> of the first two bytes of the slot and raw Y
  that of the next two: the target is valid exactly when raw X or raw Y is not
  zero; when both are zero, every field of the target is zero (and \<open>valid\<close> is
  false), whatever the other bytes of the slot are and whatever the target held
  before.
\<close>

theorem cleared_iff_raw_zero:
  assumes "i < RD03D_MAX_TARGETS"
    and "raw_x = unat (frameBuf s (4 + 8 * i)) + 256 * unat (frameBuf s (4 + 8 * i + 1))"
    and "raw_y = unat (frameBuf s (4 + 8 * i + 2)) + 256 * unat (frameBuf s (4 + 8 * i + 3))"
    and "t = targets (processFrame F now s) i"
  shows "(valid t \<longleftrightarrow> raw_x \<noteq> 0 \<or> raw_y \<noteq> 0)
       \<and> (raw_x = 0 \<and> raw_y = 0 \<longrightarrow>
            x t = 0 \<and> y t = 0 \<and> speed t = 0 \<and> distanceRaw t = 0
          \<and> distance t = to_float F 0 \<and> angle t = to_float F 0 \<and> valid t = False)"
proof -
  have "t = spec_decode F (slot (frameBuf s) i)"
    using assms(1,4) by (simp add: processFrame_targets RD03D_MAX_TARGETS_def)
  moreover have "(spec_field (slot (frameBuf s) i) 0 = 0) = (raw_x = 0)"
    unfolding slot_fields assms(2) by (rule field_zero_iff)
  moreover have "(spec_field (slot (frameBuf s) i) 1 = 0) = (raw_y = 0)"
    unfolding slot_fields assms(3) by (rule field_zero_iff)
  ultimately show ?thesis
    by (cases "raw_x = 0 \<and> raw_y = 0") (auto simp: spec_decode_def Let_def spec_cleared_def)
qed

text \<open>
  Three targets that were valid with nonzero fields. Slot 1 has raw X = raw Y = 0,
  raw speed \<open>0x1234\<close> and raw distance \<open>0x00FF\<close>: target 1 is cleared. Slot 0
  has the X bytes \<open>10 80\<close>: target 0 is valid.
\<close>

theorem cleared_iff_raw_zero_witness:
  "targets (processFrame exact_ops 9
      ((fresh_radar 7)\<lparr>targets := (\<lambda>_. \<lparr>x = 5, y = 6, speed = 7, distanceRaw = 8,
                                     distance = 1, angle = 2, valid = True\<rparr>),
         frameBuf := (\<lambda>_. 0)(4 := 0x10, 5 := 0x80, 16 := 0x34, 17 := 0x12, 18 := 0xFF)\<rparr>)) 1 =
     \<lparr>x = 0, y = 0, speed = 0, distanceRaw = 0, distance = 0, angle = 0, valid = False\<rparr>
   \<and> valid (targets (processFrame exact_ops 9
      ((fresh_radar 7)\<lparr>targets := (\<lambda>_. \<lparr>x = 5, y = 6, speed = 7, distanceRaw = 8,
                                     distance = 1, angle = 2, valid = True\<rparr>),
         frameBuf := (\<lambda>_. 0)(4 := 0x10, 5 := 0x80, 16 := 0x34, 17 := 0x12, 18 := 0xFF)\<rparr>)) 0)"
  using
    cleared_iff_raw_zero [of 1 0
      "(fresh_radar 7)\<lparr>targets := (\<lambda>_. \<lparr>x = 5, y = 6, speed = 7, distanceRaw = 8,
                                     distance = 1, angle = 2, valid = True\<rparr>),
         frameBuf := (\<lambda>_. 0)(4 := 0x10, 5 := 0x80, 16 := 0x34, 17 := 0x12, 18 := 0xFF)\<rparr>"
      0 _ exact_ops 9, OF _ _ _ refl]
    cleared_iff_raw_zero [of 0 "16 + 256 * 128"
      "(fresh_radar 7)\<lparr>targets := (\<lambda>_. \<lparr>x = 5, y = 6, speed = 7, distanceRaw = 8,
                                     distance = 1, angle = 2, valid = True\<rparr>),
         frameBuf := (\<lambda>_. 0)(4 := 0x10, 5 := 0x80, 16 := 0x34, 17 := 0x12, 18 := 0xFF)\<rparr>"
      0 _ exact_ops 9, OF _ _ _ refl]
  by (simp add: RD03D_MAX_TARGETS_def exact_ops_def)

subsection \<open>The invariant\<close>

lemma parser_inv_resetParser: "parser_inv (resetParser s)"
  by (simp add: parser_inv_def resetParser_def)

lemma parser_inv_new: "parser_inv (RD03D_new F buf0 tgt0)"
  by (simp add: parser_inv_def RD03D_new_def)

lemma processByte_inv:
  assumes "parser_inv s"
  shows "\<exists>s'. processByte F now b s = Inr s' \<and> parser_inv s'"
proof (cases "parserState s")
  case RD03D_SYNC_HEADER
  with assms have n: "unat (syncIdx s) < 4"
    by (simp add: parser_inv_def)
  then have "unat (syncIdx s + 1) = unat (syncIdx s) + 1"
    by (intro unat_succ8) simp
  with n RD03D_SYNC_HEADER show ?thesis
    by (simp add: sync_step parser_inv_def)
next
  case RD03D_READ_DATA
  with assms have k: "4 \<le> unat (frameIdx s)" "unat (frameIdx s) \<le> 29"
    by (simp_all add: parser_inv_def)
  show ?thesis
  proof (cases "unat (frameIdx s) = 29")
    case True
    with RD03D_READ_DATA show ?thesis
      by (simp add: read_last Let_def parser_inv_resetParser)
  next
    case False
    with k have lt: "unat (frameIdx s) < 29" by simp
    then have "unat (frameIdx s + 1) = unat (frameIdx s) + 1"
      by (intro unat_succ8) simp
    with lt k RD03D_READ_DATA show ?thesis
      by (simp add: read_step parser_inv_def)
  qed
qed

lemma processBytes_inv:
  "parser_inv s \<Longrightarrow> \<exists>s'. processBytes F inp s = Inr s' \<and> parser_inv s'"
proof (induction inp arbitrary: s)
  case Nil
  then show ?case by simp
next
  case (Cons tb inp)
  from processByte_inv [OF Cons.prems]
  obtain s1 where "processByte F (fst tb) (snd tb) s = Inr s1" and "parser_inv s1"
    by blast
  with Cons.IH [of s1] show ?case by simp
qed

lemma update_inv:
  assumes "parser_inv s"
  shows "\<exists>s'. update F now avail s = Inr s' \<and> parser_inv s'"
  using assms processBytes_inv [of s F avail]
    processBytes_inv [OF parser_inv_resetParser, of F avail "s\<lparr>errorCount := errorCount s + 1\<rparr>"]
  by (auto simp: update_def Let_def)

text \<open>
  C10. The invariant (sync index at most 3 while seeking the header, frame
  index from 4 to 29 while reading data) holds for the object the constructor
  builds, is established by every \<open>resetParser\<close>, and is kept by every
  \<open>processByte\<close> step and every \<open>update\<close>, none of which faults from a state
  that has it: the index is inside the buffer (and the header table) at every
  access. So no sequence of input bytes, from the initial state, leads to an
  access out of range.
\<close>

theorem buffer_index_in_bounds:
  "parser_inv (RD03D_new F buf0 tgt0)
   \<and> (\<forall>s :: 'f RD03D. parser_inv (resetParser s))
   \<and> (\<forall>s now b. parser_inv s \<longrightarrow> (\<exists>s'. processByte F now b s = Inr s' \<and> parser_inv s'))
   \<and> (\<forall>s now avail. parser_inv s \<longrightarrow> (\<exists>s'. update F now avail s = Inr s' \<and> parser_inv s'))
   \<and> (\<forall>inp. \<exists>s'. processBytes F inp (RD03D_new F buf0 tgt0) = Inr s' \<and> parser_inv s')"
  using parser_inv_new [of F buf0 tgt0] parser_inv_resetParser processByte_inv [of _ F]
    update_inv [of _ F] processBytes_inv [OF parser_inv_new, of F _ F buf0 tgt0]
  by blast

text \<open>The invariant at the example object, and one step and one \<open>update\<close> from it.\<close>

theorem buffer_index_in_bounds_witness:
  "parser_inv (fresh_radar 0)
   \<and> (\<exists>s'. processByte exact_ops (5, 5) 0xAA (fresh_radar 0) = Inr s' \<and> parser_inv s')
   \<and> (\<exists>s'. update exact_ops 5 [((5, 5), 0xAA), ((6, 7), 0xFF)] (begin_serial 1 1 (fresh_radar 0)) = Inr s'
          \<and> parser_inv s')"
proof -
  have h: "parser_inv (fresh_radar 0)" "parser_inv (begin_serial 1 1 (fresh_radar 0))"
    by (simp_all add: parser_inv_def fresh_radar_parser begin_serial_def resetParser_def)
  from buffer_index_in_bounds [of exact_ops "\<lambda>_. 0" "\<lambda>_. spec_cleared exact_ops"] h
  show ?thesis by blast
qed

subsection \<open>Whole frames\<close>

lemma processBytes_append:
  "processBytes F (xs @ ys) s =
     (case processBytes F xs s of Inl e \<Rightarrow> Inl e | Inr s' \<Rightarrow> processBytes F ys s')"
  by (induction xs arbitrary: s) (simp_all split: sum.split)

text \<open>
  The four header bytes, from any state that seeks the header, leave the
  parser reading data at index 4.
\<close>

lemma header_sync:
  assumes "parserState s = RD03D_SYNC_HEADER" and "unat (syncIdx s) < 4"
    and "map snd inp = FRAME_HEADER"
  shows "processBytes F inp s =
           Inr (s\<lparr>lastByteTime := fst (fst (last inp)),
                  frameBuf := (frameBuf s)(0 := 0xAA, 1 := 0xFF, 2 := 0x03, 3 := 0x00),
                  syncIdx := 4, parserState := RD03D_READ_DATA, frameIdx := 4\<rparr>)"
proof -
  from assms(3) obtain t0 t1 t2 t3
    where inp: "inp = [(t0, 0xAA), (t1, 0xFF), (t2, 0x03), (t3, 0x00)]"
    by (auto simp: FRAME_HEADER_def map_eq_Cons_conv)
  let ?s1 = "s\<lparr>lastByteTime := fst t0, frameBuf := (frameBuf s)(0 := 0xAA), syncIdx := 1\<rparr>"
  have 1: "processByte F t0 0xAA s = Inr ?s1"
    using word8_lt_4 [OF assms(2)] assms(1)
    by (auto simp: sync_step FRAME_HEADER_def)
  let ?s2 = "?s1\<lparr>lastByteTime := fst t1, frameBuf := (frameBuf ?s1)(1 := 0xFF), syncIdx := 2\<rparr>"
  have 2: "processByte F t1 0xFF ?s1 = Inr ?s2"
    using assms(1) by (simp add: sync_step FRAME_HEADER_def)
  let ?s3 = "?s2\<lparr>lastByteTime := fst t2, frameBuf := (frameBuf ?s2)(2 := 0x03), syncIdx := 3\<rparr>"
  have 3: "processByte F t2 0x03 ?s2 = Inr ?s3"
    using assms(1) by (simp add: sync_step FRAME_HEADER_def)
  let ?s4 = "?s3\<lparr>lastByteTime := fst t3, frameBuf := (frameBuf ?s3)(3 := 0x00), syncIdx := 4,
                  parserState := RD03D_READ_DATA, frameIdx := 4\<rparr>"
  have 4: "processByte F t3 0x00 ?s3 = Inr ?s4"
    using assms(1) by (simp add: sync_step FRAME_HEADER_def)
  show ?thesis
    unfolding inp using 1 2 3 4 by simp
qed


text \<open>Bytes that do not complete the frame are stored one after the other.\<close>

lemma collect:
  assumes "parserState s = RD03D_READ_DATA" and "unat (frameIdx s) + length inp < 30"
  shows "\<exists>s'. processBytes F inp s = Inr s'
      \<and> s' = s\<lparr>lastByteTime := lastByteTime s', frameBuf := frameBuf s',
                 frameIdx := frameIdx s'\<rparr>
      \<and> unat (frameIdx s') = unat (frameIdx s) + length inp
      \<and> (\<forall>i. frameBuf s' i =
             (if unat (frameIdx s) \<le> i \<and> i < unat (frameIdx s) + length inp
              then snd (inp ! (i - unat (frameIdx s))) else frameBuf s i))
      \<and> lastByteTime s' = (if inp = [] then lastByteTime s else fst (fst (last inp)))"
  using assms
proof (induction inp arbitrary: s)
  case Nil
  then show ?case by auto
next
  case (Cons tb inp)
  let ?k = "unat (frameIdx s)"
  let ?s1 = "s\<lparr>lastByteTime := fst (fst tb), frameBuf := (frameBuf s)(?k := snd tb),
                 frameIdx := frameIdx s + 1\<rparr>"
  from Cons.prems have lt: "?k < 29" by simp
  then have k1: "unat (frameIdx s + 1) = ?k + 1"
    by (intro unat_succ8) simp
  have step: "processByte F (fst tb) (snd tb) s = Inr ?s1"
    using Cons.prems(1) lt by (rule read_step)
  have "parserState ?s1 = RD03D_READ_DATA" "unat (frameIdx ?s1) + length inp < 30"
    using Cons.prems k1 by simp_all
  from Cons.IH [OF this] obtain s' where
    run: "processBytes F inp ?s1 = Inr s'"
    and eq: "s' = ?s1\<lparr>lastByteTime := lastByteTime s', frameBuf := frameBuf s',
                 frameIdx := frameIdx s'\<rparr>"
    and idx: "unat (frameIdx s') = unat (frameIdx ?s1) + length inp"
    and buf: "\<forall>i. frameBuf s' i =
             (if unat (frameIdx ?s1) \<le> i \<and> i < unat (frameIdx ?s1) + length inp
              then snd (inp ! (i - unat (frameIdx ?s1))) else frameBuf ?s1 i)"
    and tm: "lastByteTime s' = (if inp = [] then lastByteTime ?s1 else fst (fst (last inp)))"
    by blast
  have "processBytes F (tb # inp) s = Inr s'"
    using step run by simp
  moreover have "s' = s\<lparr>lastByteTime := lastByteTime s', frameBuf := frameBuf s',
                 frameIdx := frameIdx s'\<rparr>"
    by (subst eq) simp
  moreover have "unat (frameIdx s') = ?k + length (tb # inp)"
    using idx k1 by simp
  moreover have "\<forall>i. frameBuf s' i =
             (if ?k \<le> i \<and> i < ?k + length (tb # inp)
              then snd ((tb # inp) ! (i - ?k)) else frameBuf s i)"
    using buf k1 by (auto simp: nth_Cons')
  moreover have "lastByteTime s' = (if tb # inp = [] then lastByteTime s else fst (fst (last (tb # inp))))"
    using tm by simp
  ultimately show ?case by blast
qed

lemma slot_of_payload:
  assumes buf: "\<forall>i. 4 \<le> i \<and> i < 29 \<longrightarrow> buf i = (b1 @ b2 @ b3 @ rest) ! (i - 4)"
    and len: "length b1 = 8" "length b2 = 8" "length b3 = 8"
  shows "slot buf 0 = b1" and "slot buf 1 = b2" and "slot buf 2 = b3"
proof -
  show "slot buf 0 = b1"
  proof (rule nth_equalityI)
    show "length (slot buf 0) = length b1" using len by (simp add: slot_def)
  next
    fix k assume "k < length (slot buf 0)"
    then have k: "k < 8" by (simp add: slot_def)
    then have "slot buf 0 ! k = buf (4 + k)" by (simp add: slot_def)
    also have "\<dots> = (b1 @ b2 @ b3 @ rest) ! k" using buf k by simp
    also have "\<dots> = b1 ! k" using k len by (simp add: nth_append)
    finally show "slot buf 0 ! k = b1 ! k" .
  qed
  show "slot buf 1 = b2"
  proof (rule nth_equalityI)
    show "length (slot buf 1) = length b2" using len by (simp add: slot_def)
  next
    fix k assume "k < length (slot buf 1)"
    then have k: "k < 8" by (simp add: slot_def)
    then have "slot buf 1 ! k = buf (12 + k)" by (simp add: slot_def)
    also have "\<dots> = (b1 @ b2 @ b3 @ rest) ! (8 + k)" using buf k by simp
    also have "\<dots> = b2 ! k" using k len by (simp add: nth_append)
    finally show "slot buf 1 ! k = b2 ! k" .
  qed
  show "slot buf 2 = b3"
  proof (rule nth_equalityI)
    show "length (slot buf 2) = length b3" using len by (simp add: slot_def)
  next
    fix k assume "k < length (slot buf 2)"
    then have k: "k < 8" by (simp add: slot_def)
    then have "slot buf 2 ! k = buf (20 + k)" by (simp add: slot_def)
    also have "\<dots> = (b1 @ b2 @ b3 @ rest) ! (16 + k)" using buf k by simp
    also have "\<dots> = b3 ! k" using k len by (simp add: nth_append)
    finally show "slot buf 2 ! k = b3 ! k" .
  qed
qed

text \<open>
  A whole frame, from any state that seeks the header: the frame is decoded
  and dispatched once.
\<close>

lemma frame_from_sync:
  assumes st: "parserState s = RD03D_SYNC_HEADER" "unat (syncIdx s) < 4"
    and len: "length b1 = 8" "length b2 = 8" "length b3 = 8"
    and inp: "map snd inp = spec_frame b1 b2 b3"
  shows "\<exists>s'. processBytes F inp s = Inr s'
      \<and> parserState s' = RD03D_SYNC_HEADER \<and> syncIdx s' = 0 \<and> frameIdx s' = 0
      \<and> frameCount s' = frameCount s + 1 \<and> errorCount s' = errorCount s
      \<and> frameCallback s' = frameCallback s \<and> serial s' = serial s
      \<and> timeoutMs s' = timeoutMs s
      \<and> map (targets s') [0..<3] = [spec_decode F b1, spec_decode F b2, spec_decode F b3]
      \<and> invoked s' = invoked s @
           (case frameCallback s of
              None \<Rightarrow> []
            | Some cb \<Rightarrow>
                [(cb, [spec_decode F b1, spec_decode F b2, spec_decode F b3],
                  spec_count [spec_decode F b1, spec_decode F b2, spec_decode F b3])])"
proof -
  let ?pl = "b1 @ b2 @ b3 @ [0x55]"
  from inp have bytes: "map snd inp = FRAME_HEADER @ ?pl @ [0xCC]"
    by (simp add: spec_frame_def frame_tail_def)
  have lens: "length FRAME_HEADER = 4" "length ?pl = 25"
    using len by (simp_all add: FRAME_HEADER_def)
  define hdr where "hdr = take 4 inp"
  define rest where "rest = drop 4 inp"
  define pl where "pl = take 25 rest"
  define lst where "lst = drop 25 rest"
  have 1: "inp = hdr @ rest" "map snd hdr = FRAME_HEADER"
    using lens(1) by (simp_all add: hdr_def rest_def take_map [symmetric] bytes)
  have r: "map snd rest = ?pl @ [0xCC]"
    using lens(1) by (simp add: rest_def drop_map [symmetric] bytes)
  have 2: "rest = pl @ lst" "map snd pl = ?pl" "map snd lst = [0xCC]"
    using len by (simp_all add: pl_def lst_def take_map [symmetric] drop_map [symmetric] r)
  then obtain tl where 3: "lst = [(tl, 0xCC)]"
    by (auto simp: map_eq_Cons_conv)
  have lpl: "length pl = 25"
    using arg_cong [OF 2(2), of length] len by simp
  let ?s1 = "s\<lparr>lastByteTime := fst (fst (last hdr)),
                 frameBuf := (frameBuf s)(0 := 0xAA, 1 := 0xFF, 2 := 0x03, 3 := 0x00),
                 syncIdx := 4, parserState := RD03D_READ_DATA, frameIdx := 4\<rparr>"
  have h: "processBytes F hdr s = Inr ?s1"
    using st 1(2) by (rule header_sync)
  have "parserState ?s1 = RD03D_READ_DATA" "unat (frameIdx ?s1) + length pl < 30"
    using lpl by simp_all
  from collect [OF this, of F] obtain s2 where
    run: "processBytes F pl ?s1 = Inr s2"
    and eq: "s2 = ?s1\<lparr>lastByteTime := lastByteTime s2, frameBuf := frameBuf s2,
                 frameIdx := frameIdx s2\<rparr>"
    and idx: "unat (frameIdx s2) = unat (frameIdx ?s1) + length pl"
    and buf: "\<forall>i. frameBuf s2 i =
             (if unat (frameIdx ?s1) \<le> i \<and> i < unat (frameIdx ?s1) + length pl
              then snd (pl ! (i - unat (frameIdx ?s1))) else frameBuf ?s1 i)"
    by blast
  have rd: "parserState s2 = RD03D_READ_DATA" by (subst eq) simp
  have i29: "unat (frameIdx s2) = 29" using idx lpl by simp
  have pay: "\<forall>i. 4 \<le> i \<and> i < 29 \<longrightarrow> frameBuf s2 i = ?pl ! (i - 4)"
  proof (intro allI impI)
    fix i :: nat assume "4 \<le> i \<and> i < 29"
    then have i: "4 \<le> i" "i < 29" by simp_all
    then have "frameBuf s2 i = snd (pl ! (i - 4))" using buf lpl by simp
    also have "\<dots> = map snd pl ! (i - 4)" using i lpl by (intro nth_map [symmetric]) arith
    finally show "frameBuf s2 i = ?pl ! (i - 4)" by (simp only: 2(2))
  qed
  have b28: "frameBuf s2 28 = 0x55"
    using pay len by (simp add: nth_append)
  let ?s3 = "s2\<lparr>lastByteTime := fst tl, frameBuf := (frameBuf s2)(29 := 0xCC),
                 frameIdx := frameIdx s2 + 1\<rparr>"
  have fin: "processByte F tl 0xCC s2 = Inr (resetParser (processFrame F (snd tl) ?s3))"
    using b28 by (simp add: read_last [OF rd i29] Let_def)
  have pay3: "\<forall>i. 4 \<le> i \<and> i < 29 \<longrightarrow>
                ((frameBuf s2)(29 := 0xCC)) i = (b1 @ b2 @ b3 @ [0x55]) ! (i - 4)"
    using pay by simp
  note sl0 = slot_of_payload [of "(frameBuf s2)(29 := 0xCC)", OF pay3 len]
  have sl1: "slot ((frameBuf s2)(29 := 0xCC)) (Suc 0) = b2"
    using sl0(2) by (simp only: One_nat_def)
  note sl = sl0 sl1
  let ?s' = "resetParser (processFrame F (snd tl) ?s3)"
  have total: "processBytes F inp s = Inr ?s'"
    unfolding 1(1) 2(1) 3 using h run fin by (simp add: processBytes_append)
  have fields: "frameCount s2 = frameCount s" "errorCount s2 = errorCount s"
    "frameCallback s2 = frameCallback s" "serial s2 = serial s" "timeoutMs s2 = timeoutMs s"
    "invoked s2 = invoked s"
    by (subst eq, simp)+
  have "parserState ?s' = RD03D_SYNC_HEADER \<and> syncIdx ?s' = 0 \<and> frameIdx ?s' = 0"
    by (simp add: resetParser_def)
  moreover have "frameCount ?s' = frameCount s + 1 \<and> errorCount ?s' = errorCount s
      \<and> frameCallback ?s' = frameCallback s \<and> serial ?s' = serial s
      \<and> timeoutMs ?s' = timeoutMs s"
    using fields by (simp add: resetParser_def processFrame_eq Let_def split: option.split)
  moreover have "map (targets ?s') [0..<3] = [spec_decode F b1, spec_decode F b2, spec_decode F b3]"
    by (simp add: sl resetParser_def processFrame_eq Let_def upt_3 split: option.split)
  moreover have "invoked ?s' = invoked s @
           (case frameCallback s of
              None \<Rightarrow> []
            | Some cb \<Rightarrow>
                [(cb, [spec_decode F b1, spec_decode F b2, spec_decode F b3],
                  spec_count [spec_decode F b1, spec_decode F b2, spec_decode F b3])])"
    using fields by (simp add: sl resetParser_def processFrame_eq Let_def upt_3 split: option.split)
  ultimately show ?thesis using total
    by (intro exI [of _ "resetParser (processFrame F (snd tl) ?s3)"]) (simp only: simp_thms)
qed

lemma spec_count_le:
  "length ts \<le> 3 \<Longrightarrow> unat (spec_count ts) = length (filter valid ts)"
proof -
  assume "length ts \<le> 3"
  moreover have "length (filter valid ts) \<le> length ts" by simp
  ultimately have "length (filter valid ts) < 256" by linarith
  then show ?thesis
    by (simp add: spec_count_def unat_of_nat)
qed

text \<open>
  C1. From a state that seeks the header with match index 0 (as the initial
  state does) and a registered callback, the bytes of one frame (the header,
  three blocks of 8 bytes, the tail marker) are processed without fault and
  invoke the callback exactly once; the three targets, both as stored and as
  passed to the callback, are the decoding of the three blocks that the
  specification describes, and the count passed is the number of valid ones,
  between 0 and 3.
\<close>

theorem one_frame_one_callback:
  assumes "parserState s = RD03D_SYNC_HEADER" and "syncIdx s = 0"
    and "frameCallback s = Some cb"
    and "length b1 = 8" and "length b2 = 8" and "length b3 = 8"
    and "map snd inp = spec_frame b1 b2 b3"
    and "decoded = [spec_decode F b1, spec_decode F b2, spec_decode F b3]"
  shows "\<exists>s'. processBytes F inp s = Inr s'
       \<and> invoked s' = invoked s @ [(cb, decoded, spec_count decoded)]
       \<and> map (targets s') [0..<3] = decoded
       \<and> unat (spec_count decoded) = length (filter valid decoded)
       \<and> unat (spec_count decoded) \<le> 3"
proof -
  have "unat (syncIdx s) < 4" using assms(2) by simp
  from frame_from_sync [OF assms(1) this assms(4,5,6,7), of F] obtain s' where
    "processBytes F inp s = Inr s'"
    "map (targets s') [0..<3] = decoded"
    "invoked s' = invoked s @ [(cb, decoded, spec_count decoded)]"
    using assms(3,8) by auto
  moreover have c: "unat (spec_count decoded) = length (filter valid decoded)"
    using assms(8) by (intro spec_count_le) simp
  moreover have "length (filter valid decoded) \<le> length decoded" by simp
  then have "unat (spec_count decoded) \<le> 3" using c assms(8) by simp
  ultimately show ?thesis by (intro exI [of _ s']) (simp only: simp_thms)
qed

lemma example_block_valid: "valid (spec_decode exact_ops [0x10, 0x80, 0x05, 0x80, 0x10, 0x00, 0x01, 0x00])"
  by (simp add: spec_decode_def spec_field_def Let_def)
lemma zero_block_invalid: "\<not> valid (spec_decode exact_ops (replicate 8 0))"
  by (simp add: spec_decode_def spec_field_def Let_def spec_cleared_def)

text \<open>
  A frame whose first block has raw X \<open>0x8010\<close>, raw Y \<open>0x8005\<close>, raw speed
  \<open>0x0010\<close> and raw distance 1, the other two blocks being zero: one invocation,
  with count 1.
\<close>

theorem one_frame_one_callback_witness:
  "\<exists>s'. processBytes exact_ops
          (map (Pair (0, 0)) (spec_frame [0x10, 0x80, 0x05, 0x80, 0x10, 0x00, 0x01, 0x00]
             (replicate 8 0) (replicate 8 0)))
          (fresh_radar 7) = Inr s'
       \<and> invoked s' =
            [(7, [spec_decode exact_ops [0x10, 0x80, 0x05, 0x80, 0x10, 0x00, 0x01, 0x00],
                  spec_decode exact_ops (replicate 8 0),
                  spec_decode exact_ops (replicate 8 0)], 1)]
       \<and> map (targets s') [0..<3] =
            [spec_decode exact_ops [0x10, 0x80, 0x05, 0x80, 0x10, 0x00, 0x01, 0x00],
             spec_decode exact_ops (replicate 8 0),
             spec_decode exact_ops (replicate 8 0)]"
  using one_frame_one_callback [of "fresh_radar 7" 7
      "[0x10, 0x80, 0x05, 0x80, 0x10, 0x00, 0x01, 0x00]" "replicate 8 0" "replicate 8 0"
      "map (Pair (0, 0)) (spec_frame [0x10, 0x80, 0x05, 0x80, 0x10, 0x00, 0x01, 0x00]
             (replicate 8 0) (replicate 8 0))" _ exact_ops, OF _ _ _ _ _ _ _ refl]
  by (simp add: fresh_radar_parser comp_def spec_count_def example_block_valid zero_block_invalid)


subsection \<open>Noise before a frame\<close>










subsection \<open>Timeout of a partial frame\<close>

lemma header_then_payload:
  assumes st: "parserState s = RD03D_SYNC_HEADER" "unat (syncIdx s) < 4"
    and inp: "map snd inp = FRAME_HEADER @ payload" and len: "length payload < 26"
  shows "\<exists>s1. processBytes F inp s = Inr s1
      \<and> parserState s1 = RD03D_READ_DATA
      \<and> unat (frameIdx s1) = 4 + length payload
      \<and> lastByteTime s1 = fst (fst (last inp))
      \<and> s1 = s\<lparr>lastByteTime := lastByteTime s1, frameBuf := frameBuf s1,
                 frameIdx := frameIdx s1, syncIdx := syncIdx s1,
                 parserState := parserState s1\<rparr>"
proof -
  define hdr where "hdr = take 4 inp"
  define pl where "pl = drop 4 inp"
  have l4: "length FRAME_HEADER = 4" by (simp add: FRAME_HEADER_def)
  have 1: "inp = hdr @ pl" "map snd hdr = FRAME_HEADER" "map snd pl = payload"
    using l4 by (simp_all add: hdr_def pl_def take_map [symmetric] drop_map [symmetric] inp)
  have lpl: "length pl = length payload"
    using arg_cong [OF 1(3), of length] by simp
  have lh: "hdr \<noteq> []" using 1(2) by (auto simp: FRAME_HEADER_def)
  let ?s0 = "s\<lparr>lastByteTime := fst (fst (last hdr)),
                 frameBuf := (frameBuf s)(0 := 0xAA, 1 := 0xFF, 2 := 0x03, 3 := 0x00),
                 syncIdx := 4, parserState := RD03D_READ_DATA, frameIdx := 4\<rparr>"
  have h: "processBytes F hdr s = Inr ?s0"
    using st 1(2) by (rule header_sync)
  have "parserState ?s0 = RD03D_READ_DATA" "unat (frameIdx ?s0) + length pl < 30"
    using lpl len by simp_all
  from collect [OF this, of F] obtain s1 where
    run: "processBytes F pl ?s0 = Inr s1"
    and eq: "s1 = ?s0\<lparr>lastByteTime := lastByteTime s1, frameBuf := frameBuf s1,
                 frameIdx := frameIdx s1\<rparr>"
    and idx: "unat (frameIdx s1) = unat (frameIdx ?s0) + length pl"
    and tm: "lastByteTime s1 = (if pl = [] then lastByteTime ?s0 else fst (fst (last pl)))"
    by blast
  have "processBytes F inp s = Inr s1"
    unfolding 1(1) using h run by (simp add: processBytes_append)
  moreover have "parserState s1 = RD03D_READ_DATA" by (subst eq) simp
  moreover have "unat (frameIdx s1) = 4 + length payload" using idx lpl by simp
  moreover have "lastByteTime s1 = fst (fst (last inp))"
    using tm lh by (simp add: 1(1))
  moreover have "s1 = s\<lparr>lastByteTime := lastByteTime s1, frameBuf := frameBuf s1,
                 frameIdx := frameIdx s1, syncIdx := syncIdx s1,
                 parserState := parserState s1\<rparr>"
  proof -
    have "syncIdx s1 = 4" "parserState s1 = RD03D_READ_DATA" by (subst eq, simp)+
    then show ?thesis by (subst eq) simp
  qed
  ultimately show ?thesis by (intro exI [of _ s1]) (simp only: simp_thms)
qed

text \<open>
  C7. With a port attached and the parser seeking the header, an \<open>update\<close>
  that reads the header and fewer than 26 further bytes leaves the parser
  reading data, with no error counted and no callback invoked. An \<open>update\<close>
  that then reads no byte, at a time \<open>now\<close> with
  \<open>now - (time of the last byte) > timeout\<close> (unsigned 32-bit difference of the
  \<open>millis()\<close> readings), counts exactly one more error, invokes no callback,
  decodes no frame and resets the parser to \<open>RD03D_SYNC_HEADER\<close>; further
  updates without bytes change nothing.
\<close>

theorem truncated_frame_timeout:
  assumes "serial s" and "parserState s = RD03D_SYNC_HEADER" and "unat (syncIdx s) < 4"
    and "map snd inp = FRAME_HEADER @ payload" and "length payload < 26"
    and "ucast (timeoutMs s) < now - fst (fst (last inp))"
  shows "\<exists>s1 s2. update F t0 inp s = Inr s1
      \<and> parserState s1 = RD03D_READ_DATA
      \<and> errorCount s1 = errorCount s \<and> invoked s1 = invoked s
      \<and> update F now [] s1 = Inr s2
      \<and> errorCount s2 = errorCount s + 1
      \<and> invoked s2 = invoked s \<and> frameCount s2 = frameCount s
      \<and> parserState s2 = RD03D_SYNC_HEADER \<and> syncIdx s2 = 0 \<and> frameIdx s2 = 0
      \<and> (\<forall>later. update F later [] s2 = Inr s2)"
proof -
  from header_then_payload [OF assms(2,3,4,5), of F] obtain s1 where
    run: "processBytes F inp s = Inr s1"
    and rd: "parserState s1 = RD03D_READ_DATA"
    and tm: "lastByteTime s1 = fst (fst (last inp))"
    and eq: "s1 = s\<lparr>lastByteTime := lastByteTime s1, frameBuf := frameBuf s1,
                 frameIdx := frameIdx s1, syncIdx := syncIdx s1,
                 parserState := parserState s1\<rparr>"
    by blast
  have f: "errorCount s1 = errorCount s" "invoked s1 = invoked s" "serial s1 = serial s"
    "timeoutMs s1 = timeoutMs s" "frameCount s1 = frameCount s"
    by (subst eq, simp)+
  let ?s2 = "resetParser (s1\<lparr>errorCount := errorCount s1 + 1\<rparr>)"
  have u1: "update F t0 inp s = Inr s1"
    using assms(1,2) run by (simp add: update_def)
  have u2: "update F now [] s1 = Inr ?s2"
    using assms(1,6) rd tm f by (simp add: update_def)
  have u3: "update F later [] ?s2 = Inr ?s2" for later
    using assms(1) f by (simp add: update_def resetParser_def)
  have "errorCount ?s2 = errorCount s + 1" "invoked ?s2 = invoked s"
    "frameCount ?s2 = frameCount s" "parserState ?s2 = RD03D_SYNC_HEADER"
    "syncIdx ?s2 = 0" "frameIdx ?s2 = 0"
    using f by (simp_all add: resetParser_def)
  with u1 u2 u3 rd f(1,2) show ?thesis
    by (intro exI [of _ s1] exI [of _ ?s2]) (simp only: simp_thms)
qed

text \<open>
  The header and three payload bytes read at time 10, then an update at
  time 111 with the default timeout of 100.
\<close>

theorem truncated_frame_timeout_witness:
  "\<exists>s1 s2. update exact_ops 10 (map (Pair (10, 10)) (FRAME_HEADER @ [1, 2, 3]))
               (begin_serial 0 0 (fresh_radar 7)) = Inr s1
      \<and> parserState s1 = RD03D_READ_DATA
      \<and> update exact_ops 111 [] s1 = Inr s2
      \<and> errorCount s2 = 1 \<and> invoked s2 = [] \<and> frameCount s2 = 0
      \<and> parserState s2 = RD03D_SYNC_HEADER"
proof -
  have "serial (begin_serial 0 0 (fresh_radar 7))"
    "parserState (begin_serial 0 0 (fresh_radar 7)) = RD03D_SYNC_HEADER"
    "unat (syncIdx (begin_serial 0 0 (fresh_radar 7))) < 4"
    "map snd (map (Pair (10::uint32_t, 10::uint32_t)) (FRAME_HEADER @ [1, 2, 3])) = FRAME_HEADER @ [1, 2, 3]"
    "length [1, 2, 3 :: uint8_t] < 26"
    "ucast (timeoutMs (begin_serial 0 0 (fresh_radar 7)))
       < (111::uint32_t) - fst (fst (last (map (Pair (10, 10)) (FRAME_HEADER @ [1, 2, 3]))))"
    by (simp_all add: begin_serial_def resetParser_def fresh_radar_def onFrame_def
        RD03D_new_def RD03D_DEFAULT_TIMEOUT_def FRAME_HEADER_def comp_def)
  from truncated_frame_timeout [OF this, of exact_ops 10]
  obtain s1 s2 where
    "update exact_ops 10 (map (Pair (10, 10)) (FRAME_HEADER @ [1, 2, 3]))
               (begin_serial 0 0 (fresh_radar 7)) = Inr s1"
    "parserState s1 = RD03D_READ_DATA"
    "update exact_ops 111 [] s1 = Inr s2"
    "errorCount s2 = errorCount (begin_serial 0 0 (fresh_radar 7)) + 1"
    "invoked s2 = invoked (begin_serial 0 0 (fresh_radar 7))"
    "frameCount s2 = frameCount (begin_serial 0 0 (fresh_radar 7))"
    "parserState s2 = RD03D_SYNC_HEADER"
    by blast
  moreover have "errorCount (begin_serial 0 0 (fresh_radar 7)) = 0"
    "invoked (begin_serial 0 0 (fresh_radar 7)) = []"
    "frameCount (begin_serial 0 0 (fresh_radar 7)) = 0"
    by (simp_all add: begin_serial_def resetParser_def fresh_radar_parser)
  ultimately show ?thesis
    by (intro exI [of _ s1] exI [of _ s2]) simp
qed

section \<open>Derived distance and angle\<close>

subsection \<open>Relative errors\<close>

lemma within_rel_mono: "within_rel c e v \<Longrightarrow> c \<le> c' \<Longrightarrow> within_rel c' e v"
proof -
  assume a: "within_rel c e v" and b: "c \<le> c'"
  have "c * \<bar>e\<bar> \<le> c' * \<bar>e\<bar>"
    using b by (intro mult_right_mono) simp_all
  with a show ?thesis by (simp add: within_rel_def)
qed

lemma within_rel_step:
  assumes "within_rel c e v" and "within_rel eps v w" and "0 \<le> eps"
  shows "within_rel ((1 + eps) * (1 + c) - 1) e w"
proof -
  have 1: "\<bar>v - e\<bar> \<le> c * \<bar>e\<bar>" and 2: "\<bar>w - v\<bar> \<le> eps * \<bar>v\<bar>"
    using assms by (simp_all add: within_rel_def)
  have "\<bar>v\<bar> \<le> \<bar>e\<bar> + \<bar>v - e\<bar>" by linarith
  with 1 have "\<bar>v\<bar> \<le> \<bar>e\<bar> + c * \<bar>e\<bar>" by linarith
  then have "eps * \<bar>v\<bar> \<le> eps * (\<bar>e\<bar> + c * \<bar>e\<bar>)"
    using assms(3) by (rule mult_left_mono)
  with 2 have 3: "\<bar>w - v\<bar> \<le> eps * (\<bar>e\<bar> + c * \<bar>e\<bar>)" by linarith
  have "\<bar>w - e\<bar> \<le> \<bar>w - v\<bar> + \<bar>v - e\<bar>" by linarith
  with 1 3 have "\<bar>w - e\<bar> \<le> eps * (\<bar>e\<bar> + c * \<bar>e\<bar>) + c * \<bar>e\<bar>" by linarith
  also have "\<dots> = ((1 + eps) * (1 + c) - 1) * \<bar>e\<bar>" by (simp add: algebra_simps)
  finally show ?thesis by (simp add: within_rel_def)
qed

lemma within_rel_mult_const: "within_rel c e v \<Longrightarrow> within_rel c (e * k) (v * k)"
proof -
  assume "within_rel c e v"
  then have "\<bar>v - e\<bar> * \<bar>k\<bar> \<le> c * \<bar>e\<bar> * \<bar>k\<bar>"
    unfolding within_rel_def by (intro mult_right_mono) simp_all
  moreover have "\<bar>v * k - e * k\<bar> = \<bar>v - e\<bar> * \<bar>k\<bar>"
    by (simp add: abs_mult [symmetric] algebra_simps)
  ultimately show ?thesis
    by (simp add: within_rel_def abs_mult mult.assoc)
qed

lemma within_rel_div_const: "within_rel c e v \<Longrightarrow> within_rel c (e / k) (v / k)"
  using within_rel_mult_const [of c e v "1 / k"] by simp

lemma within_rel_add:
  assumes "within_rel c e1 v1" and "within_rel c e2 v2" and "0 \<le> e1" and "0 \<le> e2"
  shows "within_rel c (e1 + e2) (v1 + v2)"
proof -
  have "\<bar>v1 - e1\<bar> \<le> c * e1" "\<bar>v2 - e2\<bar> \<le> c * e2"
    using assms by (simp_all add: within_rel_def)
  then have "\<bar>(v1 + v2) - (e1 + e2)\<bar> \<le> c * e1 + c * e2" by linarith
  also have "\<dots> = c * \<bar>e1 + e2\<bar>" using assms(3,4) by (simp add: algebra_simps)
  finally show ?thesis by (simp add: within_rel_def)
qed

lemma within_rel_nonneg:
  assumes "within_rel c e v" and "0 \<le> e" and "c \<le> 1"
  shows "0 \<le> v"
proof -
  have "\<bar>v - e\<bar> \<le> c * e" using assms(1,2) by (simp add: within_rel_def)
  moreover have "c * e \<le> 1 * e" using assms(2,3) by (intro mult_right_mono)
  ultimately show ?thesis by linarith
qed

lemma within_rel_sqrt:
  assumes "within_rel c e v" and "0 \<le> e" and "0 \<le> v"
  shows "within_rel c (sqrt e) (sqrt v)"
proof (cases "e = 0")
  case True
  with assms(1) have "v = 0" by (simp add: within_rel_def)
  with True show ?thesis by (simp add: within_rel_def)
next
  case False
  with assms(2) have pos: "0 < sqrt e" by simp
  have d: "\<bar>v - e\<bar> \<le> c * e" using assms(1,2) by (simp add: within_rel_def)
  have "(sqrt v - sqrt e) * (sqrt v + sqrt e) = v - e"
    using assms(2,3) by (simp add: algebra_simps)
  then have "\<bar>sqrt v - sqrt e\<bar> * (sqrt v + sqrt e) = \<bar>v - e\<bar>"
    using assms(2,3) by (metis abs_mult abs_of_nonneg add_nonneg_nonneg real_sqrt_ge_zero)
  moreover have "\<bar>sqrt v - sqrt e\<bar> * sqrt e \<le> \<bar>sqrt v - sqrt e\<bar> * (sqrt v + sqrt e)"
    using assms(3) by (intro mult_left_mono) simp_all
  ultimately have "\<bar>sqrt v - sqrt e\<bar> * sqrt e \<le> c * e" using d by linarith
  also have "\<dots> = (c * sqrt e) * sqrt e" using assms(2) by simp
  finally have "\<bar>sqrt v - sqrt e\<bar> \<le> c * sqrt e"
    using pos by (simp only: mult_le_cancel_right_pos)
  then show ?thesis using assms(2) by (simp add: within_rel_def)
qed

lemma four_roundings:
  assumes "0 \<le> eps" and "eps \<le> 1/10"
  shows "(1 + eps) * (1 + ((1 + eps) * (1 + ((1 + eps) * (1 + eps) - 1)) - 1)) - 1 \<le> 5 * (eps::real)"
proof -
  have 2: "eps * eps \<le> eps * (1/10)" using assms by (intro mult_left_mono)
  have 3: "eps * eps * eps \<le> eps * (1/10) * (1/10)"
    using assms 2 by (intro mult_mono) simp_all
  have 4: "eps * eps * eps * eps \<le> eps * (1/10) * (1/10) * (1/10)"
    using assms 3 by (intro mult_mono) simp_all
  have "(1 + eps) * (1 + ((1 + eps) * (1 + ((1 + eps) * (1 + eps) - 1)) - 1)) - 1
      = 4 * eps + 6 * (eps * eps) + 4 * (eps * eps * eps) + eps * eps * eps * eps"
    by (simp add: algebra_simps)
  with 2 3 4 assms show ?thesis by linarith
qed

lemma three_roundings:
  assumes "0 \<le> eps" and "eps \<le> 1/10"
  shows "(1 + eps) * (1 + ((1 + eps) * (1 + eps) - 1)) - 1 \<le> 4 * (eps::real)"
proof -
  have 2: "eps * eps \<le> eps * (1/10)" using assms by (intro mult_left_mono)
  have 3: "eps * eps * eps \<le> eps * (1/10) * (1/10)"
    using assms 2 by (intro mult_mono) simp_all
  have "(1 + eps) * (1 + ((1 + eps) * (1 + eps) - 1)) - 1
      = 3 * eps + 3 * (eps * eps) + eps * eps * eps"
    by (simp add: algebra_simps)
  with 2 3 assms show ?thesis by linarith
qed

lemma two_roundings_le_1:
  assumes "0 \<le> eps" and "eps \<le> 1/10"
  shows "(1 + eps) * (1 + eps) - 1 \<le> (1::real)"
proof -
  have 2: "eps * eps \<le> eps * (1/10)" using assms by (intro mult_left_mono)
  have "(1 + eps) * (1 + eps) - 1 = 2 * eps + eps * eps" by (simp add: algebra_simps)
  with 2 assms show ?thesis by linarith
qed

subsection \<open>Ranges\<close>

lemma ranged_mono: "ranged lo hi r \<Longrightarrow> lo' \<le> lo \<Longrightarrow> hi \<le> hi' \<Longrightarrow> ranged lo' hi' r"
  by (auto simp: ranged_def)

lemma ranged_in_range: "ranged lo hi r \<Longrightarrow> 1 / 2 ^ 100 \<le> lo \<Longrightarrow> hi \<le> 2 ^ 100 \<Longrightarrow> in_range r"
  unfolding in_range_def by (rule ranged_mono)

lemma ranged_of_int: "\<bar>n\<bar> \<le> 2 ^ 15 \<Longrightarrow> ranged 1 (2 ^ 15) (real_of_int n)"
proof -
  assume h: "\<bar>n\<bar> \<le> 2 ^ 15"
  have "n = 0 \<or> 1 \<le> \<bar>n\<bar>" by linarith
  then have "real_of_int n = 0 \<or> 1 \<le> \<bar>real_of_int n\<bar>"
    by (metis of_int_0 of_int_1_le_iff of_int_abs)
  moreover have "\<bar>real_of_int n\<bar> \<le> real_of_int (2 ^ 15)"
    using h by (metis of_int_abs of_int_le_iff)
  ultimately show ?thesis by (auto simp: ranged_def)
qed

lemma within_rel_ranged:
  assumes "within_rel c e v" and "c \<le> 1/2" and "ranged lo hi e"
  shows "ranged (lo / 2) (2 * hi) v"
proof (cases "e = 0")
  case True
  with assms(1) have "v = 0" by (simp add: within_rel_def)
  then show ?thesis by (simp add: ranged_def)
next
  case False
  with assms(3) have r: "lo \<le> \<bar>e\<bar>" "\<bar>e\<bar> \<le> hi" by (simp_all add: ranged_def)
  have "c * \<bar>e\<bar> \<le> 1/2 * \<bar>e\<bar>"
    using assms(2) by (intro mult_right_mono) simp_all
  moreover have "\<bar>v - e\<bar> \<le> c * \<bar>e\<bar>" using assms(1) by (simp add: within_rel_def)
  ultimately have "\<bar>v - e\<bar> \<le> \<bar>e\<bar> / 2" by simp
  then have "\<bar>e\<bar> / 2 \<le> \<bar>v\<bar>" "\<bar>v\<bar> \<le> 2 * \<bar>e\<bar>" by linarith+
  with r have "lo / 2 \<le> \<bar>v\<bar>" "\<bar>v\<bar> \<le> 2 * hi" by linarith+
  then show ?thesis by (simp add: ranged_def)
qed

lemma ranged_mult:
  assumes "ranged l1 h1 a" and "ranged l2 h2 b" and "0 \<le> l1" and "0 \<le> l2"
  shows "ranged (l1 * l2) (h1 * h2) (a * b)"
proof (cases "a = 0 \<or> b = 0")
  case True
  then show ?thesis by (auto simp: ranged_def)
next
  case False
  with assms(1,2) have a: "l1 \<le> \<bar>a\<bar>" "\<bar>a\<bar> \<le> h1" and b: "l2 \<le> \<bar>b\<bar>" "\<bar>b\<bar> \<le> h2"
    by (simp_all add: ranged_def)
  have "l1 * l2 \<le> \<bar>a\<bar> * \<bar>b\<bar>"
    using a(1) b(1) assms(3,4) by (intro mult_mono) simp_all
  moreover have "\<bar>a\<bar> * \<bar>b\<bar> \<le> h1 * h2"
    using a b by (intro mult_mono) (use a in linarith, simp_all)
  ultimately show ?thesis by (simp add: ranged_def abs_mult)
qed

lemma ranged_add:
  assumes "ranged lo h1 a" and "ranged lo h2 b" and "0 \<le> a" and "0 \<le> b"
    and "0 \<le> h1" and "0 \<le> h2"
  shows "ranged lo (h1 + h2) (a + b)"
  using assms by (auto simp: ranged_def)

lemma ranged_sqrt:
  assumes "ranged (lo\<^sup>2) (hi\<^sup>2) a" and "0 \<le> a" and "0 \<le> lo" and "0 \<le> hi"
  shows "ranged lo hi (sqrt a)"
proof (cases "a = 0")
  case True
  then show ?thesis by (simp add: ranged_def)
next
  case False
  with assms have "lo\<^sup>2 \<le> a" "a \<le> hi\<^sup>2" by (simp_all add: ranged_def)
  then have "sqrt (lo\<^sup>2) \<le> sqrt a" "sqrt a \<le> sqrt (hi\<^sup>2)"
    by (simp_all only: real_sqrt_le_iff)
  moreover have "sqrt (lo\<^sup>2) = lo" "sqrt (hi\<^sup>2) = hi" using assms(3,4) by simp_all
  ultimately have "lo \<le> sqrt a" "sqrt a \<le> hi" by simp_all
  then show ?thesis using assms(2) by (simp add: ranged_def)
qed

lemma ranged_const: "0 < k \<Longrightarrow> ranged k k k"
  by (simp add: ranged_def)

lemma ranged_inverse_pi: "ranged (1/4) (1/2) (1 / pi)"
proof -
  have p: "2 \<le> pi" "pi < 4" by (rule pi_ge_two, rule pi_less_4)
  then have "1 / 4 \<le> 1 / pi" "1 / pi \<le> 1 / 2"
    by (simp_all add: field_simps)
  then show ?thesis by (simp add: ranged_def)
qed

subsection \<open>The range of the angle\<close>

text \<open>Bounds of \<open>arctan\<close> from its alternating series.\<close>

lemma arctan_enclosure:
  fixes x :: real
  assumes "0 \<le> x" and "x \<le> 1"
  shows "(\<Sum>k<2 * n. (- 1) ^ k * (1 / real (k * 2 + 1) * x ^ (k * 2 + 1))) \<le> arctan x"
    and "arctan x \<le> (\<Sum>k<2 * n + 1. (- 1) ^ k * (1 / real (k * 2 + 1) * x ^ (k * 2 + 1)))"
proof -
  let ?a = "\<lambda>k. 1 / real (k * 2 + 1) * x ^ (k * 2 + 1)"
  have ax: "\<bar>x\<bar> \<le> 1" using assms by simp
  have lim: "?a \<longlonglongrightarrow> 0"
    using zeroseq_arctan_series [OF ax] .
  have pos: "0 \<le> ?a k" for k
    using assms(1) by simp
  have dec: "?a (Suc k) \<le> ?a k" for k
  proof -
    have "x ^ (Suc k * 2 + 1) \<le> x ^ (k * 2 + 1)"
      using assms by (intro power_decreasing) simp_all
    moreover have "1 / real (Suc k * 2 + 1) \<le> 1 / real (k * 2 + 1)"
      by (intro divide_left_mono) simp_all
    ultimately show ?thesis
      using assms(1) by (intro mult_mono) simp_all
  qed
  have s: "arctan x = (\<Sum>k. (- 1) ^ k * ?a k)"
    using arctan_series [OF ax] .
  show "(\<Sum>k<2 * n. (- 1) ^ k * ?a k) \<le> arctan x"
    unfolding s using summable_Leibniz'(2) [of ?a, OF lim pos dec, of n] .
  show "arctan x \<le> (\<Sum>k<2 * n + 1. (- 1) ^ k * ?a k)"
    unfolding s using summable_Leibniz'(4) [of ?a, OF lim pos dec, of n] .
qed

lemma arctan_ge_half:
  fixes u :: real
  assumes "0 \<le> u" and "u \<le> 1"
  shows "u / 2 \<le> arctan u"
proof -
  have "u * u \<le> 1 * 1" using assms by (intro mult_mono) simp_all
  then have "u * u * u \<le> 1 * u" using assms(1) by (intro mult_right_mono) simp_all
  then have "u - u ^ 3 / 3 \<ge> u / 2" using assms(1) by (simp add: power3_eq_cube)
  moreover have "u - u ^ 3 / 3 \<le> arctan u"
    using arctan_enclosure(1) [OF assms, of 1] by (simp add: eval_nat_numeral)
  ultimately show ?thesis by linarith
qed

lemma abs_arctan: "\<bar>arctan u\<bar> = arctan \<bar>u\<bar>"
proof (cases "0 \<le> u")
  case True
  then show ?thesis by simp
next
  case False
  then have "arctan u < 0" by simp
  with False show ?thesis by (simp add: arctan_minus)
qed

lemma arctan_ratio_range:
  assumes "m \<noteq> 0" and "\<bar>m\<bar> \<le> 2 ^ 15" and "0 < n" and "n \<le> 2 ^ 15"
  shows "1 / 2 ^ 16 \<le> \<bar>arctan (real_of_int m / real_of_int n)\<bar>"
proof -
  let ?q = "\<bar>real_of_int m / real_of_int n\<bar>"
  have "1 \<le> \<bar>m\<bar>" using assms(1) by linarith
  then have m1: "1 \<le> \<bar>real_of_int m\<bar>"
    by (metis of_int_1_le_iff of_int_abs)
  have n: "0 < real_of_int n" "real_of_int n \<le> 2 ^ 15"
    using assms(3,4) by (simp_all add: of_int_le_numeral_power_cancel_iff)
  have "1 / 2 ^ 15 \<le> 1 / real_of_int n"
    using n by (intro divide_left_mono) simp_all
  also have "\<dots> \<le> \<bar>real_of_int m\<bar> / real_of_int n"
    using m1 n(1) by (intro divide_right_mono) simp_all
  also have "\<dots> = ?q" using n(1) by simp
  finally have q: "1 / 2 ^ 15 \<le> ?q" .
  have "(1 / 2 ^ 15) / 2 \<le> arctan (1 / 2 ^ 15 :: real)"
    by (rule arctan_ge_half) simp_all
  also have "\<dots> \<le> arctan ?q" using q by (simp only: arctan_le_iff)
  finally show ?thesis by (simp add: abs_arctan)
qed

lemma atan2_int_range:
  assumes m: "\<bar>m\<bar> \<le> 2 ^ 15" and n: "\<bar>n\<bar> \<le> 2 ^ 15"
  shows "ranged (1 / 2 ^ 16) 4 (atan2 (real_of_int m) (real_of_int n))"
proof -
  let ?a = "arctan (real_of_int m / real_of_int n)"
  let ?A = "atan2 (real_of_int m) (real_of_int n)"
  have bnd: "- (pi / 2) < ?a" "?a < pi / 2"
    by (rule arctan_lbound, rule arctan_ubound)
  have p: "2 \<le> pi" "pi < 4" by (rule pi_ge_two, rule pi_less_4)
  have small: "(1 / 2 ^ 16 :: real) \<le> 1" by simp
  have fin: "ranged (1 / 2 ^ 16) 4 ?A" if "1 \<le> \<bar>?A\<bar>" and "\<bar>?A\<bar> \<le> 4"
    using that small unfolding ranged_def by linarith
  consider "0 < n" | "n < 0" | "n = 0" by linarith
  then show ?thesis
  proof cases
    case 1
    then have eq: "?A = ?a" by (simp add: atan2_def)
    show ?thesis
    proof (cases "m = 0")
      case True
      with 1 show ?thesis by (simp add: atan2_def ranged_def)
    next
      case False
      have "n \<le> 2 ^ 15" using n by linarith
      from arctan_ratio_range [OF False m 1 this]
      have "1 / 2 ^ 16 \<le> \<bar>?A\<bar>" by (simp only: eq)
      moreover have "\<bar>?A\<bar> \<le> 4" unfolding eq using bnd p by linarith
      ultimately show ?thesis by (simp only: ranged_def simp_thms)
    qed
  next
    case 2
    show ?thesis
    proof (cases "0 \<le> m")
      case True
      with 2 have "real_of_int m / real_of_int n \<le> 0"
        by (simp add: divide_nonneg_neg)
      then have "?a \<le> 0" by simp
      moreover have "?A = ?a + pi"
        using 2 True by (simp add: atan2_def)
      ultimately have "1 \<le> \<bar>?A\<bar>" "\<bar>?A\<bar> \<le> 4" using bnd p by linarith+
      then show ?thesis by (rule fin)
    next
      case False
      with 2 have "0 < real_of_int m / real_of_int n"
        by (simp add: divide_neg_neg)
      then have "0 < ?a" by simp
      moreover have "?A = ?a - pi"
        using 2 False by (simp add: atan2_def)
      ultimately have "1 \<le> \<bar>?A\<bar>" "\<bar>?A\<bar> \<le> 4" using bnd p by linarith+
      then show ?thesis by (rule fin)
    qed
  next
    case 3
    consider "0 < m" | "m < 0" | "m = 0" by linarith
    then show ?thesis
    proof cases
      case 1
      with 3 have "?A = pi / 2" by (simp add: atan2_def)
      then have "1 \<le> \<bar>?A\<bar>" "\<bar>?A\<bar> \<le> 4" using p by linarith+
      then show ?thesis by (rule fin)
    next
      case 2
      with 3 have "?A = - pi / 2" by (simp add: atan2_def)
      then have "1 \<le> \<bar>?A\<bar>" "\<bar>?A\<bar> \<le> 4" using p by linarith+
      then show ?thesis by (rule fin)
    next
      case 3
      with \<open>n = 0\<close> show ?thesis by (simp add: atan2_def ranged_def)
    qed
  qed
qed

subsection \<open>The float model\<close>

lemma float_model_exact: "0 \<le> eps \<Longrightarrow> float_model eps (\<lambda>v. v) exact_ops"
  by (simp add: float_model_def exact_ops_def within_rel_def)

lemma float_modelD:
  assumes "float_model eps val F"
  shows "\<bar>n\<bar> \<le> 2 ^ 15 \<Longrightarrow> val (to_float F n) = real_of_int n"
    and "in_range (val a) \<Longrightarrow> in_range (val b) \<Longrightarrow> in_range (val a + val b) \<Longrightarrow>
         within_rel eps (val a + val b) (val (fadd F a b))"
    and "in_range (val a) \<Longrightarrow> in_range (val b) \<Longrightarrow> in_range (val a * val b) \<Longrightarrow>
         within_rel eps (val a * val b) (val (fmul F a b))"
    and "in_range (val a) \<Longrightarrow> in_range (val b) \<Longrightarrow> val b \<noteq> 0 \<Longrightarrow> in_range (val a / val b) \<Longrightarrow>
         within_rel eps (val a / val b) (val (fdiv F a b))"
    and "in_range (val a) \<Longrightarrow> 0 \<le> val a \<Longrightarrow> within_rel eps (sqrt (val a)) (val (sqrtf F a))"
    and "\<bar>m\<bar> \<le> 2 ^ 15 \<Longrightarrow> \<bar>k\<bar> \<le> 2 ^ 15 \<Longrightarrow>
         within_rel eps (atan2 (real_of_int m) (real_of_int k))
           (val (atan2f F (to_float F m) (to_float F k)))"
    and "in_range (val a) \<Longrightarrow> in_range (val a / pi) \<Longrightarrow>
         within_rel eps (val a / pi) (val (div_PI F a))"
  using assms unfolding float_model_def by blast+

lemma spec_distance_tolerance:
  assumes m: "float_model eps val F" and e: "0 \<le> eps" "eps \<le> 1/10"
    and r: "\<bar>xi\<bar> \<le> 2 ^ 15" "\<bar>yi\<bar> \<le> 2 ^ 15"
  shows "within_rel (5 * eps) (sqrt ((real_of_int xi)\<^sup>2 + (real_of_int yi)\<^sup>2) / 10)
           (val (spec_distance F xi yi))"
proof -
  let ?X = "real_of_int xi" and ?Y = "real_of_int yi"
  let ?xf = "to_float F xi" and ?yf = "to_float F yi"
  let ?m1 = "fmul F ?xf ?xf" and ?m2 = "fmul F ?yf ?yf"
  let ?a = "fadd F ?m1 ?m2"
  let ?r = "sqrtf F ?a"
  let ?c2 = "(1 + eps) * (1 + eps) - 1"
  let ?c3 = "(1 + eps) * (1 + ?c2) - 1"
  let ?c4 = "(1 + eps) * (1 + ?c3) - 1"
  have e2: "eps \<le> 1/2" using e(2) by simp
  have e1: "eps \<le> 1" using e(2) by simp
  have vx: "val ?xf = ?X"
    using r(1) by (rule float_modelD(1) [OF m])
  have vy: "val ?yf = ?Y"
    using r(2) by (rule float_modelD(1) [OF m])
  have v10: "val (to_float F 10) = 10"
    using float_modelD(1) [OF m, of 10] by simp
  have sq_range: "ranged (1 * 1) (2 ^ 15 * 2 ^ 15) (real_of_int n * real_of_int n)"
    if "\<bar>n\<bar> \<le> 2 ^ 15" for n
    using ranged_of_int [OF that] ranged_of_int [OF that] by (rule ranged_mult) simp_all
  have in_int: "in_range (real_of_int n)" if "\<bar>n\<bar> \<le> 2 ^ 15" for n
    using ranged_of_int [OF that] by (rule ranged_in_range) simp_all
  have in_sq: "in_range (real_of_int n * real_of_int n)" if "\<bar>n\<bar> \<le> 2 ^ 15" for n
    using sq_range [OF that] by (rule ranged_in_range) simp_all
  have m1: "within_rel eps (?X * ?X) (val ?m1)"
    using float_modelD(3) [OF m, of ?xf ?xf] in_int [OF r(1)] in_sq [OF r(1)]
    by (simp only: vx)
  have m2: "within_rel eps (?Y * ?Y) (val ?m2)"
    using float_modelD(3) [OF m, of ?yf ?yf] in_int [OF r(2)] in_sq [OF r(2)]
    by (simp only: vy)
  have r1: "ranged (1 * 1 / 2) (2 * (2 ^ 15 * 2 ^ 15)) (val ?m1)"
    using m1 e2 sq_range [OF r(1)] by (rule within_rel_ranged)
  have r2: "ranged (1 * 1 / 2) (2 * (2 ^ 15 * 2 ^ 15)) (val ?m2)"
    using m2 e2 sq_range [OF r(2)] by (rule within_rel_ranged)
  have p1: "0 \<le> val ?m1"
    using m1 _ e1 by (rule within_rel_nonneg) simp
  have p2: "0 \<le> val ?m2"
    using m2 _ e1 by (rule within_rel_nonneg) simp
  have rs: "ranged (1 * 1 / 2) (2 * (2 ^ 15 * 2 ^ 15) + 2 * (2 ^ 15 * 2 ^ 15)) (val ?m1 + val ?m2)"
    using r1 r2 p1 p2 by (rule ranged_add) simp_all
  have s: "within_rel eps (?X * ?X + ?Y * ?Y) (val ?m1 + val ?m2)"
    using m1 m2 by (rule within_rel_add) simp_all
  have i1: "in_range (val ?m1)" using r1 by (rule ranged_in_range) simp_all
  have i2: "in_range (val ?m2)" using r2 by (rule ranged_in_range) simp_all
  have isum: "in_range (val ?m1 + val ?m2)" using rs by (rule ranged_in_range) simp_all
  have f: "within_rel eps (val ?m1 + val ?m2) (val ?a)"
    using i1 i2 isum by (rule float_modelD(2) [OF m])
  from within_rel_step [OF s f e(1)]
  have a: "within_rel ?c2 (?X * ?X + ?Y * ?Y) (val ?a)" .
  have a0: "0 \<le> val ?a"
    using a _ two_roundings_le_1 [OF e] by (rule within_rel_nonneg) simp
  have ra: "ranged (1 * 1 / 2 / 2) (2 * (2 * (2 ^ 15 * 2 ^ 15) + 2 * (2 ^ 15 * 2 ^ 15))) (val ?a)"
    using f e2 rs by (rule within_rel_ranged)
  have ia: "in_range (val ?a)" using ra by (rule ranged_in_range) simp_all
  have sq: "within_rel ?c2 (sqrt (?X * ?X + ?Y * ?Y)) (sqrt (val ?a))"
    using a _ a0 by (rule within_rel_sqrt) simp
  have g: "within_rel eps (sqrt (val ?a)) (val ?r)"
    using ia a0 by (rule float_modelD(5) [OF m])
  from within_rel_step [OF sq g e(1)]
  have rr: "within_rel ?c3 (sqrt (?X * ?X + ?Y * ?Y)) (val ?r)" .
  have "ranged ((1/2)\<^sup>2) ((2 ^ 17)\<^sup>2) (val ?a)"
    using ra by (rule ranged_mono) (simp_all add: power2_eq_square)
  then have rq: "ranged (1/2) (2 ^ 17) (sqrt (val ?a))"
    using a0 by (rule ranged_sqrt) simp_all
  have rr_range: "ranged (1 / 2 / 2) (2 * 2 ^ 17) (val ?r)"
    using g e2 rq by (rule within_rel_ranged)
  have ir: "in_range (val ?r)" using rr_range by (rule ranged_in_range) simp_all
  have q: "within_rel ?c3 (sqrt (?X * ?X + ?Y * ?Y) / 10) (val ?r / 10)"
    using rr by (rule within_rel_div_const)
  have "ranged (1 / 2 / 2 * (1 / 10)) (2 * 2 ^ 17 * (1 / 10)) (val ?r * (1 / 10))"
    using rr_range ranged_const [of "1 / 10"] by (rule ranged_mult) simp_all
  then have "in_range (val ?r * (1 / 10))" by (rule ranged_in_range) simp_all
  then have iq: "in_range (val ?r / val (to_float F 10))" by (simp add: v10)
  have i10: "in_range (val (to_float F 10))"
    using in_int [of 10] by (simp add: v10)
  have n10: "val (to_float F 10) \<noteq> 0" by (simp add: v10)
  have "within_rel eps (val ?r / val (to_float F 10)) (val (fdiv F ?r (to_float F 10)))"
    using ir i10 n10 iq by (rule float_modelD(4) [OF m])
  then have "within_rel eps (val ?r / 10) (val (spec_distance F xi yi))"
    by (simp only: v10 spec_distance_def)
  from within_rel_step [OF q this e(1)]
  have "within_rel ?c4 (sqrt (?X * ?X + ?Y * ?Y) / 10) (val (spec_distance F xi yi))" .
  then have "within_rel (5 * eps) (sqrt (?X * ?X + ?Y * ?Y) / 10) (val (spec_distance F xi yi))"
    using four_roundings [OF e] by (rule within_rel_mono)
  then show ?thesis by (simp add: power2_eq_square)
qed

lemma spec_angle_tolerance:
  assumes m: "float_model eps val F" and e: "0 \<le> eps" "eps \<le> 1/10"
    and r: "\<bar>xi\<bar> \<le> 2 ^ 15" "\<bar>yi\<bar> \<le> 2 ^ 15"
  shows "within_rel (4 * eps) (atan2 (real_of_int xi) (real_of_int yi) * 180 / pi)
           (val (spec_angle F xi yi))"
proof -
  let ?X = "real_of_int xi" and ?Y = "real_of_int yi"
  let ?xf = "to_float F xi" and ?yf = "to_float F yi"
  let ?t = "atan2f F ?xf ?yf"
  let ?p = "fmul F ?t (to_float F 180)"
  let ?c2 = "(1 + eps) * (1 + eps) - 1"
  let ?c3 = "(1 + eps) * (1 + ?c2) - 1"
  have e2: "eps \<le> 1/2" using e(2) by simp
  have v180: "val (to_float F 180) = 180"
    using float_modelD(1) [OF m, of 180] by simp
  have t: "within_rel eps (atan2 ?X ?Y) (val ?t)"
    using r by (rule float_modelD(6) [OF m])
  have rt: "ranged (1 / 2 ^ 16 / 2) (2 * 4) (val ?t)"
    using t e2 atan2_int_range [OF r] by (rule within_rel_ranged)
  have it: "in_range (val ?t)" using rt by (rule ranged_in_range) simp_all
  have t180: "within_rel eps (atan2 ?X ?Y * 180) (val ?t * 180)"
    using t by (rule within_rel_mult_const)
  have rp: "ranged (1 / 2 ^ 16 / 2 * 180) (2 * 4 * 180) (val ?t * 180)"
    using rt ranged_const [of 180] by (rule ranged_mult) simp_all
  then have "in_range (val ?t * 180)" by (rule ranged_in_range) simp_all
  then have ip: "in_range (val ?t * val (to_float F 180))" by (simp only: v180)
  have "in_range 180" using ranged_const [of 180] by (rule ranged_in_range) simp_all
  then have i180: "in_range (val (to_float F 180))" by (simp only: v180)
  have "within_rel eps (val ?t * val (to_float F 180)) (val ?p)"
    using it i180 ip by (rule float_modelD(3) [OF m])
  then have f: "within_rel eps (val ?t * 180) (val ?p)"
    by (simp only: v180)
  from within_rel_step [OF t180 f e(1)]
  have p: "within_rel ?c2 (atan2 ?X ?Y * 180) (val ?p)" .
  have rpp: "ranged (1 / 2 ^ 16 / 2 * 180 / 2) (2 * (2 * 4 * 180)) (val ?p)"
    using f e2 rp by (rule within_rel_ranged)
  have ipp: "in_range (val ?p)" using rpp by (rule ranged_in_range) simp_all
  have q: "within_rel ?c2 (atan2 ?X ?Y * 180 / pi) (val ?p / pi)"
    using p by (rule within_rel_div_const)
  have "ranged (1 / 2 ^ 16 / 2 * 180 / 2 * (1/4)) (2 * (2 * 4 * 180) * (1/2)) (val ?p * (1 / pi))"
    using rpp ranged_inverse_pi by (rule ranged_mult) simp_all
  then have "in_range (val ?p * (1 / pi))" by (rule ranged_in_range) simp_all
  then have iq: "in_range (val ?p / pi)" by simp
  have "within_rel eps (val ?p / pi) (val (spec_angle F xi yi))"
    unfolding spec_angle_def using ipp iq by (rule float_modelD(7) [OF m])
  from within_rel_step [OF q this e(1)]
  have "within_rel ?c3 (atan2 ?X ?Y * 180 / pi) (val (spec_angle F xi yi))" .
  then show ?thesis
    using three_roundings [OF e] by (rule within_rel_mono)
qed

lemma within_rel_scaled: "0 \<le> d \<Longrightarrow> within_rel d e (e * (1 + d))"
proof -
  assume "0 \<le> d"
  have "e * (1 + d) - e = d * e" by (simp add: algebra_simps)
  then have "\<bar>e * (1 + d) - e\<bar> = \<bar>d\<bar> * \<bar>e\<bar>" by (simp only: abs_mult)
  with \<open>0 \<le> d\<close> show ?thesis by (simp add: within_rel_def)
qed

lemma within_rel_scaled_div: "0 \<le> d \<Longrightarrow> within_rel d (a / b) (a * (1 + d) / b)"
  using within_rel_scaled [of d "a / b"] by simp

lemma float_model_rounding: "0 \<le> d \<Longrightarrow> float_model d (\<lambda>v. v) (rounding_ops d)"
  by (simp add: float_model_def rounding_ops_def within_rel_scaled within_rel_scaled_div)

lemma sint16_bound: "\<bar>sint (w::16 word)\<bar> \<le> 2 ^ 15"
  using sint_ge [of w] sint_lt [of w] by simp

lemma parseTarget_valid_raw:
  assumes "unat index < RD03D_MAX_TARGETS"
    and "valid (targets (parseTarget F index d s) (unat index))"
  shows "le16 (d 0) (d 1) \<noteq> 0 \<or> le16 (d 2) (d 3) \<noteq> 0"
proof (rule ccontr)
  assume "\<not> (le16 (d 0) (d 1) \<noteq> 0 \<or> le16 (d 2) (d 3) \<noteq> 0)"
  then have "targets (parseTarget F index d s) (unat index) = spec_cleared F"
    using assms(1) by (simp add: parseTarget_invalid)
  with assms(2) show False by (simp add: spec_cleared_def)
qed

lemma parseTarget_derived:
  assumes "unat index < RD03D_MAX_TARGETS"
    and "t = targets (parseTarget F index d s) (unat index)"
    and "valid t"
  shows "distance t = spec_distance F (sint (x t)) (sint (y t))"
    and "angle t = spec_angle F (sint (x t)) (sint (y t))"
proof -
  have v: "le16 (d 0) (d 1) \<noteq> 0 \<or> le16 (d 2) (d 3) \<noteq> 0"
    using assms by (intro parseTarget_valid_raw [of index F d s]) simp_all
  show "distance t = spec_distance F (sint (x t)) (sint (y t))"
    unfolding assms(2) parseTarget_valid [OF assms(1) v] Let_def by simp
  show "angle t = spec_angle F (sint (x t)) (sint (y t))"
    unfolding assms(2) parseTarget_valid [OF assms(1) v] Let_def by simp
qed

text \<open>
  C9. For every valid decoded target, with \<open>x\<close> and \<open>y\<close> its decoded
  coordinates: the field \<open>distance\<close> is \<open>sqrtf(x * x + y * y) / 10\<close> and the
  field \<open>angle\<close> is \<open>atan2f(x, y) * 180 / PI\<close>, computed in the float arithmetic
  of the platform, whatever it is. In every arithmetic that fits the rounding
  model with a relative error \<open>eps\<close> of at most \<open>1/10\<close> per operation, the
  distance is the real number \<open>sqrt(x\<^sup>2 + y\<^sup>2) / 10\<close> up to the relative error
  \<open>5 eps\<close>, and the angle is \<open>atan2(x, y) \<times> 180 / \<pi>\<close> up to the relative error
  \<open>4 eps\<close>; in exact arithmetic (\<open>eps = 0\<close>) they are equal. The model
  assumes nothing of an operation that overflows or underflows: every value
  the decoder computes with is zero or between \<open>2\<^sup>-\<^sup>1\<^sup>9\<close> and \<open>2\<^sup>3\<^sup>4\<close> in
  magnitude.
\<close>

theorem derived_distance_angle:
  assumes "unat index < RD03D_MAX_TARGETS"
    and "t = targets (parseTarget F index data s) (unat index)"
    and "valid t"
    and "x_mm = real_of_int (sint (x t))" and "y_mm = real_of_int (sint (y t))"
  shows "distance t = spec_distance F (sint (x t)) (sint (y t))
       \<and> angle t = spec_angle F (sint (x t)) (sint (y t))
       \<and> (float_model eps val F \<and> 0 \<le> eps \<and> eps \<le> 1/10 \<longrightarrow>
            \<bar>val (distance t) - sqrt (x_mm\<^sup>2 + y_mm\<^sup>2) / 10\<bar>
              \<le> 5 * eps * (sqrt (x_mm\<^sup>2 + y_mm\<^sup>2) / 10)
          \<and> \<bar>val (angle t) - atan2 x_mm y_mm * 180 / pi\<bar>
              \<le> 4 * eps * \<bar>atan2 x_mm y_mm * 180 / pi\<bar>)"
proof -
  note d = parseTarget_derived [OF assms(1,2,3)]
  have tol: "\<bar>val (distance t) - sqrt (x_mm\<^sup>2 + y_mm\<^sup>2) / 10\<bar>
              \<le> 5 * eps * (sqrt (x_mm\<^sup>2 + y_mm\<^sup>2) / 10)
          \<and> \<bar>val (angle t) - atan2 x_mm y_mm * 180 / pi\<bar>
              \<le> 4 * eps * \<bar>atan2 x_mm y_mm * 180 / pi\<bar>"
    if m: "float_model eps val F" and e: "0 \<le> eps" "eps \<le> 1/10"
  proof -
    have "within_rel (5 * eps) (sqrt (x_mm\<^sup>2 + y_mm\<^sup>2) / 10) (val (distance t))"
      unfolding d assms(4,5)
      using m e sint16_bound sint16_bound by (rule spec_distance_tolerance)
    moreover have "within_rel (4 * eps) (atan2 x_mm y_mm * 180 / pi) (val (angle t))"
      unfolding d assms(4,5)
      using m e sint16_bound sint16_bound by (rule spec_angle_tolerance)
    ultimately show ?thesis
      by (simp add: within_rel_def)
  qed
  with d show ?thesis by blast
qed

subsection \<open>The example x = 30, y = 40\<close>

lemma arctan_third_bounds:
  "321745/1000000 < arctan (1/3 :: real)" "arctan (1/3 :: real) < 321752/1000000"
  using arctan_enclosure(1) [of "1/3" 2] arctan_enclosure(2) [of "1/3" 2]
  by (simp_all add: eval_nat_numeral)

lemma pi_bounds: "314159/100000 < pi" "pi < 31416/10000"
proof -
  have m: "pi = 16 * arctan (1/5) - 4 * arctan (1/239)"
    using machin by simp
  have a: "1973955/10000000 < arctan (1/5 :: real)" "arctan (1/5 :: real) < 1973956/10000000"
    using arctan_enclosure(1) [of "1/5" 2] arctan_enclosure(2) [of "1/5" 2]
    by (simp_all add: eval_nat_numeral)
  have b: "4184/1000000 < arctan (1/239 :: real)" "arctan (1/239 :: real) < 41841/10000000"
    using arctan_enclosure(1) [of "1/239" 1] arctan_enclosure(2) [of "1/239" 1]
    by (simp_all add: eval_nat_numeral)
  show "314159/100000 < pi" "pi < 31416/10000"
    unfolding m using a b by linarith+
qed

lemma angle_30_40_bounds:
  "36869/1000 < arctan (3/4) * 180 / pi" "arctan (3/4) * 180 / pi < 36871/1000"
proof -
  have d: "arctan (3/4 :: real) = 2 * arctan (1/3)"
    using arctan_double [of "1/3 :: real"] by (simp add: power2_eq_square)
  have "36869/1000 * pi < arctan (3/4) * 180"
    unfolding d using arctan_third_bounds(1) pi_bounds(2) by linarith
  then show "36869/1000 < arctan (3/4) * 180 / pi"
    by (simp add: pos_less_divide_eq)
  have "arctan (3/4) * 180 < 36871/1000 * pi"
    unfolding d using arctan_third_bounds(2) pi_bounds(1) by linarith
  then show "arctan (3/4) * 180 / pi < 36871/1000"
    by (simp add: pos_divide_less_eq)
qed

lemma le16_30_40: "le16 0x1E 0x80 = 0x801E" "le16 0x28 0x80 = 0x8028"
  by (simp_all add: le16_def)

lemma target_30_40:
  "valid (targets (parseTarget F 0 ((\<lambda>_. 0)(0 := 0x1E, 1 := 0x80, 2 := 0x28, 3 := 0x80)) s) 0)"
  "sint (x (targets (parseTarget F 0 ((\<lambda>_. 0)(0 := 0x1E, 1 := 0x80, 2 := 0x28, 3 := 0x80)) s) 0)) = 30"
  "sint (y (targets (parseTarget F 0 ((\<lambda>_. 0)(0 := 0x1E, 1 := 0x80, 2 := 0x28, 3 := 0x80)) s) 0)) = 40"
proof -
  let ?d = "(\<lambda>_. 0)(0 := 0x1E, 1 := 0x80, 2 := 0x28, 3 := 0x80) :: nat \<Rightarrow> uint8_t"
  have i: "unat (0::uint8_t) < RD03D_MAX_TARGETS" by (simp add: RD03D_MAX_TARGETS_def)
  have v: "le16 (?d 0) (?d 1) \<noteq> 0 \<or> le16 (?d 2) (?d 3) \<noteq> 0"
    by (simp add: le16_30_40)
  have u: "unat (0::uint8_t) = 0" by simp
  note t = parseTarget_valid [OF i v, of F s, unfolded u]
  show "valid (targets (parseTarget F 0 ?d s) 0)"
    unfolding t Let_def by simp
  show "sint (x (targets (parseTarget F 0 ?d s) 0)) = 30"
    unfolding t Let_def by (simp add: le16_30_40)
  show "sint (y (targets (parseTarget F 0 ?d s) 0)) = 40"
    unfolding t Let_def by (simp add: le16_30_40)
qed

lemma distance_30_40: "sqrt ((30::real)\<^sup>2 + 40\<^sup>2) / 10 = 5"
proof -
  have "(30::real)\<^sup>2 + 40\<^sup>2 = 50\<^sup>2" by simp
  then have "sqrt ((30::real)\<^sup>2 + 40\<^sup>2) = 50" by simp
  then show ?thesis by simp
qed

lemma atan2_30_40: "atan2 30 40 = arctan (3/4)"
  by (simp add: atan2_def)

text \<open>
  The slot bytes \<open>1E 80 28 80\<close> decode to \<open>x = 30\<close>, \<open>y = 40\<close>. In exact
  arithmetic the distance is 5 and the angle lies between 36.869 and 36.871
  degrees. In the arithmetic that rounds every operation by the factor
  \<open>1 + 2\<^sup>-\<^sup>2\<^sup>4\<close>, which fits the model, the distance is 5 up to
  \<open>25 / 2\<^sup>2\<^sup>4\<close> and the angle is \<open>arctan(3/4) \<times> 180 / \<pi>\<close> up to
  \<open>4 / 2\<^sup>2\<^sup>4 \<times> 36.871\<close>.
\<close>

theorem derived_distance_angle_witness:
  "sint (x (targets (parseTarget exact_ops 0
              ((\<lambda>_. 0)(0 := 0x1E, 1 := 0x80, 2 := 0x28, 3 := 0x80)) (fresh_radar 0)) 0)) = 30
   \<and> sint (y (targets (parseTarget exact_ops 0
              ((\<lambda>_. 0)(0 := 0x1E, 1 := 0x80, 2 := 0x28, 3 := 0x80)) (fresh_radar 0)) 0)) = 40
   \<and> distance (targets (parseTarget exact_ops 0
              ((\<lambda>_. 0)(0 := 0x1E, 1 := 0x80, 2 := 0x28, 3 := 0x80)) (fresh_radar 0)) 0) = 5
   \<and> 36869 / 1000 < angle (targets (parseTarget exact_ops 0
              ((\<lambda>_. 0)(0 := 0x1E, 1 := 0x80, 2 := 0x28, 3 := 0x80)) (fresh_radar 0)) 0)
   \<and> angle (targets (parseTarget exact_ops 0
              ((\<lambda>_. 0)(0 := 0x1E, 1 := 0x80, 2 := 0x28, 3 := 0x80)) (fresh_radar 0)) 0)
        < 36871 / 1000
   \<and> float_model (1 / 2 ^ 24) (\<lambda>v. v) (rounding_ops (1 / 2 ^ 24))
   \<and> \<bar>distance (targets (parseTarget (rounding_ops (1 / 2 ^ 24)) 0
              ((\<lambda>_. 0)(0 := 0x1E, 1 := 0x80, 2 := 0x28, 3 := 0x80)) (fresh_radar 0)) 0) - 5\<bar>
        \<le> 25 / 2 ^ 24
   \<and> \<bar>angle (targets (parseTarget (rounding_ops (1 / 2 ^ 24)) 0
              ((\<lambda>_. 0)(0 := 0x1E, 1 := 0x80, 2 := 0x28, 3 := 0x80)) (fresh_radar 0)) 0)
          - arctan (3/4) * 180 / pi\<bar>
        \<le> 4 / 2 ^ 24 * (36871 / 1000)"
proof -
  let ?d = "(\<lambda>_. 0)(0 := 0x1E, 1 := 0x80, 2 := 0x28, 3 := 0x80) :: nat \<Rightarrow> uint8_t"
  let ?e = "1 / 2 ^ 24 :: real"
  let ?T = "targets (parseTarget exact_ops 0 ?d (fresh_radar 0)) 0"
  let ?R = "targets (parseTarget (rounding_ops ?e) 0 ?d (fresh_radar 0)) 0"
  have i: "unat (0::uint8_t) < RD03D_MAX_TARGETS" by (simp add: RD03D_MAX_TARGETS_def)
  have T0: "?T = targets (parseTarget exact_ops 0 ?d (fresh_radar 0)) (unat (0::uint8_t))"
    and R0: "?R = targets (parseTarget (rounding_ops ?e) 0 ?d (fresh_radar 0)) (unat (0::uint8_t))"
    by simp_all
  have xT: "30 = real_of_int (sint (x ?T))" and yT: "40 = real_of_int (sint (y ?T))"
    and xR: "30 = real_of_int (sint (x ?R))" and yR: "40 = real_of_int (sint (y ?R))"
    by (simp_all only: target_30_40)
  have m: "float_model ?e (\<lambda>v. v) (rounding_ops ?e)"
    by (rule float_model_rounding) simp
  have A: "0 < arctan (3/4 :: real) * 180 / pi"
    using angle_30_40_bounds(1) by linarith
  note thT = derived_distance_angle [OF i T0 target_30_40(1) xT yT, of ?e "\<lambda>v. v"]
  have "distance ?T = spec_distance exact_ops 30 40"
    using thT [THEN conjunct1] by (simp only: target_30_40)
  then have dT: "distance ?T = 5"
    using distance_30_40 by (simp add: spec_distance_def exact_ops_def power2_eq_square)
  have "angle ?T = spec_angle exact_ops 30 40"
    using thT [THEN conjunct2, THEN conjunct1] by (simp only: target_30_40)
  then have aT: "angle ?T = arctan (3/4) * 180 / pi"
    by (simp add: spec_angle_def exact_ops_def atan2_30_40)
  have e01: "0 \<le> ?e \<and> ?e \<le> 1/10" by simp
  note thR = derived_distance_angle [OF i R0 target_30_40(1) xR yR, of ?e "\<lambda>v. v"]
  note tol = thR [THEN conjunct2, THEN conjunct2, THEN mp, OF conjI [OF m e01]]
  have "\<bar>distance ?R - 5\<bar> \<le> 5 * ?e * 5"
    using tol [THEN conjunct1] by (simp only: distance_30_40)
  then have dR: "\<bar>distance ?R - 5\<bar> \<le> 25 / 2 ^ 24" by simp
  have "\<bar>angle ?R - arctan (3/4) * 180 / pi\<bar> \<le> 4 * ?e * \<bar>arctan (3/4) * 180 / pi\<bar>"
    using tol [THEN conjunct2] by (simp only: atan2_30_40)
  moreover have "\<bar>arctan (3/4 :: real) * 180 / pi\<bar> \<le> 36871 / 1000"
    using A angle_30_40_bounds(2) by linarith
  then have "4 * ?e * \<bar>arctan (3/4 :: real) * 180 / pi\<bar> \<le> 4 * ?e * (36871 / 1000)"
    by (intro mult_left_mono) simp_all
  ultimately have aR: "\<bar>angle ?R - arctan (3/4) * 180 / pi\<bar> \<le> 4 / 2 ^ 24 * (36871 / 1000)"
    by simp
  have b: "36869 / 1000 < angle ?T" "angle ?T < 36871 / 1000"
    using angle_30_40_bounds by (simp_all only: aT)
  show ?thesis
    using target_30_40(2,3) [of exact_ops "fresh_radar 0"] dT b m dR aR
    by (intro conjI)
qed

end
